theory Spec2Isabelle
  imports Main
begin

section \<open>Python values used by \<open>email_client.py\<close>\<close>

text \<open>
  Python \<open>str\<close> values are modelled as HOL strings (lists of 8-bit characters, read as
  the code points 0..255); \<open>bytes\<close> values are lists of the same characters read as
  bytes. An exception raised by the source is a value of type \<open>error\<close>, returned as
  \<open>Inl\<close>; a normal return is \<open>Inr\<close>.
\<close>

type_synonym str = string
type_synonym bytes = "char list"

datatype error =
  AttributeError | LookupError | HeaderParseError | OverflowError | TypeError | UnicodeError

text \<open>\<open>s.startswith(p)\<close>\<close>

fun startswith :: "str \<Rightarrow> str \<Rightarrow> bool" where
  "startswith s [] = True"
| "startswith [] (p # ps) = False"
| "startswith (c # cs) (p # ps) = (c = p \<and> startswith cs ps)"

text \<open>\<open>sub in s\<close>\<close>

fun contains :: "str \<Rightarrow> str \<Rightarrow> bool" where
  "contains sub [] = (sub = [])"
| "contains sub (c # cs) = (startswith (c # cs) sub \<or> contains sub cs)"

text \<open>\<open>sep.join(xs)\<close>\<close>

fun join :: "str \<Rightarrow> str list \<Rightarrow> str" where
  "join sep [] = []"
| "join sep [x] = x"
| "join sep (x # y # ys) = x @ sep @ join sep (y # ys)"

text \<open>
  What \<open>msg.get(name)\<close> returns for a header that is there: a \<open>str\<close>, or, when the raw
  header has a byte that is not ASCII, an \<open>email.header.Header\<close> object, which carries
  here the value of \<open>str()\<close> on it.
\<close>

datatype hvalue = Str str | Header str

text \<open>\<open>str(x)\<close> for what \<open>msg.get(name)\<close> returns: a header value or \<open>None\<close>\<close>

definition py_str :: "hvalue option \<Rightarrow> str" where
  "py_str v = (case v of None \<Rightarrow> ''None'' | Some (Str s) \<Rightarrow> s | Some (Header s) \<Rightarrow> s)"

text \<open>
  \<open>str.lower()\<close> on the code points 0..255: the ASCII capitals and the Latin-1 capitals
  \<open>0xC0..0xDE\<close> except the multiplication sign \<open>0xD7\<close> move up by 32.
\<close>

definition lower_char :: "char \<Rightarrow> char" where
  "lower_char c =
     (let n = (of_char c :: nat) in
      if (65 \<le> n \<and> n \<le> 90) \<or> (192 \<le> n \<and> n \<le> 222 \<and> n \<noteq> 215)
      then char_of (n + 32) else c)"

definition lower :: "str \<Rightarrow> str" where
  "lower s = map lower_char s"

text \<open>
  \<open>c.isspace()\<close> on the code points 0..255, which is also what \<open>\s\<close> matches in a
  \<open>str\<close> pattern and what \<open>str.strip()\<close> removes.
\<close>

definition is_space :: "char \<Rightarrow> bool" where
  "is_space c =
     (let n = (of_char c :: nat) in
      (9 \<le> n \<and> n \<le> 13) \<or> (28 \<le> n \<and> n \<le> 32) \<or> n = 133 \<or> n = 160)"

text \<open>\<open>s.strip(chars)\<close>: characters of \<open>chars\<close> are removed from both ends.\<close>

definition lstrip_chars :: "char list \<Rightarrow> str \<Rightarrow> str" where
  "lstrip_chars cs s = dropWhile (\<lambda>c. c \<in> set cs) s"

definition rstrip_chars :: "char list \<Rightarrow> str \<Rightarrow> str" where
  "rstrip_chars cs s = rev (dropWhile (\<lambda>c. c \<in> set cs) (rev s))"

definition strip_chars :: "char list \<Rightarrow> str \<Rightarrow> str" where
  "strip_chars cs s = rstrip_chars cs (lstrip_chars cs s)"

text \<open>\<open>s.strip()\<close>\<close>

definition strip_ws :: "str \<Rightarrow> str" where
  "strip_ws s = rev (dropWhile is_space (rev (dropWhile is_space s)))"

section \<open>Parsed messages\<close>

text \<open>
  An \<open>email.message.Message\<close> as \<open>email.message_from_bytes\<close> builds it. A node carries
  its header list, the value of \<open>get_content_type()\<close>, the value of \<open>get_filename()\<close>,
  and either the text of its payload (\<open>get_payload(decode=True).decode('utf-8',
  errors='ignore')\<close>) or, when \<open>is_multipart()\<close>, its sub-messages.
\<close>

datatype message =
    Leaf (headers: "(str \<times> hvalue) list") (get_content_type: str)
         (get_filename: "str option") (payload: str)
  | Multipart (headers: "(str \<times> hvalue) list") (get_content_type: str)
         (get_filename: "str option") (subparts: "message list")

fun is_multipart :: "message \<Rightarrow> bool" where
  "is_multipart (Leaf h c f t) = False"
| "is_multipart (Multipart h c f ps) = True"

text \<open>\<open>msg.walk()\<close>: the node itself, then the walk of each sub-message in order.\<close>

fun walk :: "message \<Rightarrow> message list" where
  "walk (Leaf h c f t) = [Leaf h c f t]"
| "walk (Multipart h c f ps) = Multipart h c f ps # concat (map walk ps)"

text \<open>\<open>msg.get(name)\<close>: the first header whose name matches, compared in lower case.\<close>

fun get_header :: "(str \<times> hvalue) list \<Rightarrow> str \<Rightarrow> hvalue option" where
  "get_header [] name = None"
| "get_header ((k, v) # hs) name =
     (if lower k = lower name then Some v else get_header hs name)"

definition get :: "message \<Rightarrow> str \<Rightarrow> hvalue option" where
  "get msg name = get_header (headers msg) name"

text \<open>
  \<open>part.get_payload(decode=True).decode('utf-8', errors='ignore')\<close>: on a multipart
  node \<open>get_payload(decode=True)\<close> is \<open>None\<close>, and \<open>None.decode\<close> raises
  \<open>AttributeError\<close>.
\<close>

fun payload_text :: "message \<Rightarrow> error + str" where
  "payload_text (Leaf h c f t) = Inr t"
| "payload_text (Multipart h c f ps) = Inl AttributeError"

section \<open>\<open>EmailReader._get_email_body\<close>\<close>

text \<open>The test of line 487: \<open>"attachment" not in str(part.get("Content-Disposition"))\<close>.\<close>

definition not_attachment :: "message \<Rightarrow> bool" where
  "not_attachment part =
     (\<not> contains ''attachment'' (py_str (get part ''Content-Disposition'')))"

text \<open>One iteration of the loop of lines 483-491 on the pair \<open>(plain_body, html_body)\<close>.\<close>

definition body_step :: "str \<times> str \<Rightarrow> message \<Rightarrow> error + (str \<times> str)" where
  "body_step acc part =
     (if not_attachment part then
        if get_content_type part = ''text/plain'' then
          (case payload_text part of Inl e \<Rightarrow> Inl e | Inr t \<Rightarrow> Inr (t, snd acc))
        else if get_content_type part = ''text/html'' then
          (case payload_text part of Inl e \<Rightarrow> Inl e | Inr t \<Rightarrow> Inr (fst acc, t))
        else Inr acc
      else Inr acc)"

fun body_loop :: "str \<times> str \<Rightarrow> message list \<Rightarrow> error + (str \<times> str)" where
  "body_loop acc [] = Inr acc"
| "body_loop acc (part # rest) =
     (case body_step acc part of Inl e \<Rightarrow> Inl e | Inr acc' \<Rightarrow> body_loop acc' rest)"

text \<open>Lines 479-497: the values of \<open>plain_body\<close> and \<open>html_body\<close> before line 499.\<close>

definition captured_bodies :: "message \<Rightarrow> error + (str \<times> str)" where
  "captured_bodies msg =
     (if is_multipart msg then body_loop ([], []) (walk msg)
      else
        (case payload_text msg of
           Inl e \<Rightarrow> Inl e
         | Inr body \<Rightarrow>
             if get_content_type msg = ''text/html'' then Inr ([], body)
             else Inr (body, [])))"

text \<open>Lines 499-502.\<close>

definition resolve_body :: "bool \<Rightarrow> str \<Rightarrow> str \<Rightarrow> str" where
  "resolve_body prefer_html plain_body html_body =
     (if prefer_html \<and> html_body \<noteq> [] then html_body
      else if plain_body \<noteq> [] then plain_body else html_body)"

definition get_email_body :: "message \<Rightarrow> bool \<Rightarrow> error + str" where
  "get_email_body msg prefer_html =
     (case captured_bodies msg of
        Inl e \<Rightarrow> Inl e
      | Inr (plain_body, html_body) \<Rightarrow> Inr (resolve_body prefer_html plain_body html_body))"

text \<open>
  What the parser guarantees: a node with sub-messages has a \<open>multipart/*\<close> or
  \<open>message/*\<close> content type, so it is neither \<open>text/plain\<close> nor \<open>text/html\<close>.
\<close>

fun parsed :: "message \<Rightarrow> bool" where
  "parsed (Leaf h c f t) = True"
| "parsed (Multipart h c f ps) =
     (c \<noteq> ''text/plain'' \<and> c \<noteq> ''text/html'' \<and> list_all parsed ps)"

section \<open>The regular expressions of \<open>_get_unsubscribe_links\<close>\<close>

text \<open>
  The patterns of the source use literals, \<open>.\<close>, character sets, the greedy
  quantifiers \<open>?\<close>, \<open>*\<close> and \<open>+\<close> on single characters, capturing groups and a
  top-level alternation. A pattern is a list of elements; \<open>Mark\<close> stands where a group
  opens or closes.
\<close>

datatype cls = Ch char | Space
datatype atom = Lit char | AnyChar | OneOf "cls list" | NoneOf "cls list"
datatype quant = Once | Opt | Star | Plus
datatype elem = At atom quant | Mark

type_synonym pattern = "elem list"

fun cls_ok :: "bool \<Rightarrow> char \<Rightarrow> cls \<Rightarrow> bool" where
  "cls_ok ic c (Ch a) = (if ic then lower_char c = lower_char a else c = a)"
| "cls_ok ic c Space = is_space c"

text \<open>Whether one character matches; \<open>ic\<close> is \<open>re.IGNORECASE\<close>.\<close>

fun atom_ok :: "bool \<Rightarrow> atom \<Rightarrow> char \<Rightarrow> bool" where
  "atom_ok ic (Lit a) c = (if ic then lower_char c = lower_char a else c = a)"
| "atom_ok ic AnyChar c = (c \<noteq> CHR 0x0A)"
| "atom_ok ic (OneOf cs) c = list_ex (cls_ok ic c) cs"
| "atom_ok ic (NoneOf cs) c = (\<not> list_ex (cls_ok ic c) cs)"

text \<open>
  The backtracking matcher at a fixed start: the first match in the order in which
  \<open>re\<close> tries them (a greedy quantifier takes a character first and gives it back when
  the rest fails). The result is the input left after the match and the inputs left at
  each group boundary.
\<close>

fun rmatch :: "bool \<Rightarrow> pattern \<Rightarrow> str \<Rightarrow> str list \<Rightarrow> (str list \<times> str) option" where
  "rmatch ic [] s ms = Some (ms, s)"
| "rmatch ic (Mark # es) s ms = rmatch ic es s (ms @ [s])"
| "rmatch ic (At a Once # es) [] ms = None"
| "rmatch ic (At a Once # es) (c # cs) ms =
     (if atom_ok ic a c then rmatch ic es cs ms else None)"
| "rmatch ic (At a Opt # es) [] ms = rmatch ic es [] ms"
| "rmatch ic (At a Opt # es) (c # cs) ms =
     (if atom_ok ic a c then
        (case rmatch ic es cs ms of Some r \<Rightarrow> Some r
         | None \<Rightarrow> rmatch ic es (c # cs) ms)
      else rmatch ic es (c # cs) ms)"
| "rmatch ic (At a Star # es) [] ms = rmatch ic es [] ms"
| "rmatch ic (At a Star # es) (c # cs) ms =
     (if atom_ok ic a c then
        (case rmatch ic (At a Star # es) cs ms of Some r \<Rightarrow> Some r
         | None \<Rightarrow> rmatch ic es (c # cs) ms)
      else rmatch ic es (c # cs) ms)"
| "rmatch ic (At a Plus # es) [] ms = None"
| "rmatch ic (At a Plus # es) (c # cs) ms =
     (if atom_ok ic a c then rmatch ic (At a Star # es) cs ms else None)"

text \<open>
  A match is the input at its start, the inputs at the group boundaries and the input
  after it.
\<close>

type_synonym rematch = "str \<times> str list \<times> str"

text \<open>
  The scan of \<open>re.findall\<close> and \<open>re.finditer\<close>: the leftmost match, then the scan of
  what follows it. Every pattern of the source consumes at least one character; the
  last branch (an empty match) steps one character on.
\<close>

function scan :: "bool \<Rightarrow> pattern \<Rightarrow> str \<Rightarrow> rematch list" where
  "scan ic p s =
     (case rmatch ic p s [] of
        None \<Rightarrow> (case s of [] \<Rightarrow> [] | c # cs \<Rightarrow> scan ic p cs)
      | Some (ms, r) \<Rightarrow>
          if length r < length s then (s, ms, r) # scan ic p r
          else (s, ms, r) # (case s of [] \<Rightarrow> [] | c # cs \<Rightarrow> scan ic p cs))"
  by pat_completeness auto
termination
  by (relation "measure (\<lambda>(ic, p, s). length s)") auto

declare scan.simps [simp del]

text \<open>\<open>match.group(0)\<close>, \<open>match.group(1)\<close> and \<open>match.group(2)\<close>.\<close>

definition group0 :: "rematch \<Rightarrow> str" where
  "group0 m = (case m of (s, ms, r) \<Rightarrow> take (length s - length r) s)"

definition group1 :: "rematch \<Rightarrow> str" where
  "group1 m =
     (case m of (s, a # b # ms, r) \<Rightarrow> take (length a - length b) a | _ \<Rightarrow> [])"

definition group2 :: "rematch \<Rightarrow> str" where
  "group2 m =
     (case m of (s, a # b # c # d # ms, r) \<Rightarrow> take (length c - length d) c | _ \<Rightarrow> [])"

text \<open>\<open>re.findall\<close> of a pattern without a group, and of a pattern with one group.\<close>

definition findall0 :: "bool \<Rightarrow> pattern \<Rightarrow> str \<Rightarrow> str list" where
  "findall0 ic p s = map group0 (scan ic p s)"

definition findall1 :: "bool \<Rightarrow> pattern \<Rightarrow> str \<Rightarrow> str list" where
  "findall1 ic p s = map group1 (scan ic p s)"

text \<open>\<open>re.search\<close> of an alternation, as a truth value: some alternative matches somewhere.\<close>

fun search :: "bool \<Rightarrow> pattern list \<Rightarrow> str \<Rightarrow> bool" where
  "search ic alts [] = list_ex (\<lambda>p. rmatch ic p [] [] \<noteq> None) alts"
| "search ic alts (c # cs) =
     (list_ex (\<lambda>p. rmatch ic p (c # cs) [] \<noteq> None) alts \<or> search ic alts cs)"

definition lits :: "str \<Rightarrow> pattern" where
  "lits s = map (\<lambda>c. At (Lit c) Once) s"

definition dquote :: char where "dquote = CHR 0x22"
definition squote :: char where "squote = CHR 0x27"

text \<open>\<open>[^>]\<close>, \<open>[^<]\<close>, \<open>["\']\<close>, \<open>[^"\']\<close> and \<open>[^\s<>"\']\<close>\<close>

definition not_gt :: atom where "not_gt = NoneOf [Ch CHR ''>'']"
definition not_lt :: atom where "not_lt = NoneOf [Ch CHR ''<'']"
definition quote_char :: atom where "quote_char = OneOf [Ch dquote, Ch squote]"
definition not_quote :: atom where "not_quote = NoneOf [Ch dquote, Ch squote]"
definition url_char :: atom where
  "url_char = NoneOf [Space, Ch CHR ''<'', Ch CHR ''>'', Ch dquote, Ch squote]"

text \<open>Line 569: \<open><(https?://[^>]+)>\<close>; line 573: \<open><(mailto:[^>]+)>\<close>.\<close>

definition url_header_re :: pattern where
  "url_header_re =
     lits ''<'' @ [Mark] @ lits ''http'' @ [At (Lit CHR ''s'') Opt] @ lits ''://''
     @ [At not_gt Plus, Mark] @ lits ''>''"

definition mailto_header_re :: pattern where
  "mailto_header_re =
     lits ''<'' @ [Mark] @ lits ''mailto:'' @ [At not_gt Plus, Mark] @ lits ''>''"

text \<open>\<open>https?://\<close>, the start of each pattern of lines 585-596.\<close>

definition http_prefix :: pattern where
  "http_prefix = lits ''http'' @ [At (Lit CHR ''s'') Opt] @ lits ''://''"

text \<open>Lines 584-597, in the order of the source.\<close>

definition unsubscribe_patterns :: "pattern list" where
  "unsubscribe_patterns =
     [http_prefix @ [At url_char Plus] @ lits ''unsubscribe'' @ [At url_char Star],
      http_prefix @ [At url_char Plus] @ lits ''/unsub'' @ [At url_char Star],
      http_prefix @ [At url_char Plus] @ lits ''/opt-out'' @ [At url_char Star],
      http_prefix @ [At url_char Plus] @ lits ''/preferences'' @ [At url_char Star],
      http_prefix @ [At url_char Plus] @ lits ''/email-preferences'' @ [At url_char Star],
      http_prefix @ [At url_char Plus] @ lits ''/manage'' @ [At url_char Star]
        @ lits ''subscription'' @ [At url_char Star],
      http_prefix @ [At url_char Plus] @ lits ''/email/preferences'' @ [At url_char Star],
      http_prefix @ [At url_char Plus] @ lits ''/settings/notifications''
        @ [At url_char Star],
      http_prefix @ [At url_char Star] @ lits ''beehiiv.com/'' @ [At url_char Star]
        @ lits ''unsubscribe'' @ [At url_char Star],
      http_prefix @ [At url_char Star] @ lits ''beehiiv.com/'' @ [At url_char Star]
        @ lits ''preferences'' @ [At url_char Star],
      http_prefix @ [At url_char Star] @ lits ''beehiiv.com/'' @ [At url_char Star]
        @ lits ''manage'' @ [At url_char Star]]"

text \<open>\<open><a[^>]+href=["\']([^"\']+)["\']\<close>, the start of the patterns of lines 602 and 619.\<close>

definition anchor_href :: pattern where
  "anchor_href =
     lits ''<a'' @ [At not_gt Plus] @ lits ''href='' @ [At quote_char Once, Mark,
       At not_quote Plus, Mark, At quote_char Once]"

text \<open>Line 602: \<open><a[^>]+href=["\']([^"\']+)["\'][^>]*>([^<]*)</a>\<close>\<close>

definition link_pattern :: pattern where
  "link_pattern =
     anchor_href @ [At not_gt Star] @ lits ''>'' @ [Mark, At not_lt Star, Mark]
     @ lits ''</a>''"

text \<open>Line 607: \<open>unsubscribe|opt.?out|preferences|manage|settings|stop.?receiv\<close>\<close>

definition link_text_re :: "pattern list" where
  "link_text_re =
     [lits ''unsubscribe'',
      lits ''opt'' @ [At AnyChar Opt] @ lits ''out'',
      lits ''preferences'',
      lits ''manage'',
      lits ''settings'',
      lits ''stop'' @ [At AnyChar Opt] @ lits ''receiv'']"

text \<open>Line 613: \<open>unsubscribe[^<]*<a[^>]+href=["\']([^"\']+)["\']\<close>\<close>

definition unsub_before_link_re :: pattern where
  "unsub_before_link_re = lits ''unsubscribe'' @ [At not_lt Star] @ anchor_href"

text \<open>Line 619: \<open><a[^>]+href=["\']([^"\']+)["\'][^>]*>[^<]*unsubscribe\<close>\<close>

definition unsub_in_link_re :: pattern where
  "unsub_in_link_re =
     anchor_href @ [At not_gt Star] @ lits ''>'' @ [At not_lt Star] @ lits ''unsubscribe''"

section \<open>\<open>EmailReader._get_unsubscribe_links\<close>\<close>

text \<open>\<open>s.replace(old, new)\<close>: every occurrence of \<open>old\<close>, left to right, without overlap.\<close>

function replace :: "str \<Rightarrow> str \<Rightarrow> str \<Rightarrow> str" where
  "replace old new [] = (if old = [] then new else [])"
| "replace old new (c # cs) =
     (if old = [] then new @ c # replace old new cs
      else if startswith (c # cs) old
        then new @ replace old new (drop (length old) (c # cs))
        else c # replace old new cs)"
  by pat_completeness auto
termination
  by (relation "measure (\<lambda>(old, new, s). length s)") auto

text \<open>
  Lines 565-574: the links of the \<open>List-Unsubscribe\<close> header. Without the header the
  value is the default \<open>''\<close>. A \<open>Header\<close> object is truthy, and \<open>re.findall\<close> on it raises
  \<open>TypeError\<close>.
\<close>

definition header_links :: "message \<Rightarrow> error + str list" where
  "header_links msg =
     (case get msg ''List-Unsubscribe'' of
        None \<Rightarrow> Inr []
      | Some (Str list_unsubscribe) \<Rightarrow>
          if list_unsubscribe \<noteq> [] then
            Inr (findall1 False url_header_re list_unsubscribe
                 @ findall1 False mailto_header_re list_unsubscribe)
          else Inr []
      | Some (Header h) \<Rightarrow> Inl TypeError)"

text \<open>
  Lines 608-609, 615-616, 621-622 and 631-632:
  \<open>if url.startswith('http') and url not in unsubscribe_links: unsubscribe_links.append(url)\<close>
\<close>

definition add_link :: "str list \<Rightarrow> str \<Rightarrow> str list" where
  "add_link unsubscribe_links url =
     (if startswith url ''http'' \<and> url \<notin> set unsubscribe_links
      then unsubscribe_links @ [url] else unsubscribe_links)"

text \<open>Lines 602-609: the anchors whose text has one of the words of line 607.\<close>

definition anchor_text_rule :: "str list \<Rightarrow> str \<Rightarrow> str list" where
  "anchor_text_rule unsubscribe_links body =
     foldl (\<lambda>links m. if search True link_text_re (group2 m)
                        then add_link links (group1 m) else links)
       unsubscribe_links (scan True link_pattern body)"

text \<open>Lines 613-622.\<close>

definition proximity_rule :: "str list \<Rightarrow> str \<Rightarrow> str list" where
  "proximity_rule unsubscribe_links body =
     foldl add_link
       (foldl add_link unsubscribe_links (findall1 True unsub_before_link_re body))
       (findall1 True unsub_in_link_re body)"

text \<open>Lines 628-630.\<close>

definition strip_set :: "char list" where
  "strip_set = ''.,;:)]}'' @ [squote, dquote] @ ''&amp;''"

definition clean_url :: "str \<Rightarrow> str" where
  "clean_url match = replace ''&amp;'' ''&'' (strip_chars strip_set match)"

text \<open>Lines 624-632.\<close>

definition pattern_rule :: "str list \<Rightarrow> str \<Rightarrow> str list" where
  "pattern_rule unsubscribe_links body =
     foldl (\<lambda>links pattern.
              foldl (\<lambda>links match. add_link links (clean_url match)) links
                (findall0 True pattern body))
       unsubscribe_links unsubscribe_patterns"

text \<open>One iteration of the loop of line 580.\<close>

definition body_pass :: "message \<Rightarrow> str list \<Rightarrow> bool \<Rightarrow> error + str list" where
  "body_pass msg unsubscribe_links prefer_html =
     (case get_email_body msg prefer_html of
        Inl e \<Rightarrow> Inl e
      | Inr body \<Rightarrow>
          if body \<noteq> [] then
            Inr (pattern_rule
                   (if prefer_html
                    then proximity_rule (anchor_text_rule unsubscribe_links body) body
                    else unsubscribe_links)
                   body)
          else Inr unsubscribe_links)"

text \<open>Lines 562-632: the value of \<open>unsubscribe_links\<close> before line 634.\<close>

definition collected_links :: "message \<Rightarrow> error + str list" where
  "collected_links msg =
     (case header_links msg of
        Inl e \<Rightarrow> Inl e
      | Inr unsubscribe_links \<Rightarrow>
          (case body_pass msg unsubscribe_links True of
             Inl e \<Rightarrow> Inl e
           | Inr links \<Rightarrow> body_pass msg links False))"

text \<open>Lines 635-640, on the state \<open>(seen, unique_links)\<close>.\<close>

fun unique_loop :: "str set \<Rightarrow> str list \<Rightarrow> str list \<Rightarrow> str list" where
  "unique_loop seen unique_links [] = unique_links"
| "unique_loop seen unique_links (link # rest) =
     (if link \<notin> seen then unique_loop (insert link seen) (unique_links @ [link]) rest
      else unique_loop seen unique_links rest)"

definition get_unsubscribe_links :: "message \<Rightarrow> error + str list" where
  "get_unsubscribe_links msg =
     (case collected_links msg of
        Inl e \<Rightarrow> Inl e
      | Inr unsubscribe_links \<Rightarrow> Inr (unique_loop {} [] unsubscribe_links))"

section \<open>\<open>EmailReader._decode_header\<close>\<close>

text \<open>
  A codec, as \<open>_decode_header\<close> uses it, is the function \<open>b.decode(name,
  errors='ignore')\<close>: it returns a string or raises (the codecs \<open>idna\<close> and
  \<open>undefined\<close> raise \<open>UnicodeError\<close> under \<open>errors='ignore'\<close>).
\<close>

type_synonym codec = "bytes \<Rightarrow> error + str"

text \<open>
  A codec that honours the error handler decodes the front of a non-empty byte string:
  either some characters and the number of bytes they took, or the number of bytes that
  cannot be decoded. With \<open>errors='ignore'\<close> the handler produces nothing for the bytes
  that cannot be decoded, and the decoder goes on after them.
\<close>

datatype decoded = Good str nat | Bad nat

type_synonym decoder = "bytes \<Rightarrow> decoded"

function decode_ignore :: "decoder \<Rightarrow> bytes \<Rightarrow> str" where
  "decode_ignore step [] = []"
| "decode_ignore step (b # bs) =
     (case step (b # bs) of
        Good s n \<Rightarrow> s @ decode_ignore step (drop (n - 1) bs)
      | Bad n \<Rightarrow> decode_ignore step (drop (n - 1) bs))"
  by pat_completeness auto
termination
  by (relation "measure (\<lambda>(step, bs). length bs)") auto

definition stepwise :: "decoder \<Rightarrow> codec" where
  "stepwise step bs = Inr (decode_ignore step bs)"

text \<open>The \<open>ascii\<close> codec: a byte below 128 is the character of that code.\<close>

fun ascii_step :: decoder where
  "ascii_step [] = Bad 0"
| "ascii_step (b # bs) = (if (of_char b :: nat) < 128 then Good [b] 1 else Bad 1)"

definition ascii_codec :: codec where
  "ascii_codec = stepwise ascii_step"

text \<open>
  A chunk that \<open>email.header.decode_header\<close> returns is \<open>bytes\<close> or \<open>str\<close>, with its
  charset or \<open>None\<close>.
\<close>

datatype chunk = Bytes bytes | Text str

text \<open>
  The two library functions \<open>_decode_header\<close> calls are parameters:
  \<open>email.header.decode_header\<close>, which may raise, and the codec registry, which has no
  text codec for an unknown charset name (\<open>bytes.decode\<close> raises \<open>LookupError\<close>).
\<close>

record pylib =
  email_decode_header :: "str \<Rightarrow> error + (chunk \<times> str option) list"
  codecs_lookup :: "str \<Rightarrow> codec option"

text \<open>Lines 470-473: \<open>part.decode(encoding or 'utf-8', errors='ignore')\<close>, or the string.\<close>

definition or_utf8 :: "str option \<Rightarrow> str" where
  "or_utf8 encoding =
     (case encoding of None \<Rightarrow> ''utf-8'' | Some e \<Rightarrow> if e = [] then ''utf-8'' else e)"

definition decode_chunk :: "pylib \<Rightarrow> chunk \<times> str option \<Rightarrow> error + str" where
  "decode_chunk lib pe =
     (case pe of
        (Bytes part, encoding) \<Rightarrow>
          (case codecs_lookup lib (or_utf8 encoding) of
             None \<Rightarrow> Inl LookupError
           | Some cd \<Rightarrow> cd part)
      | (Text part, encoding) \<Rightarrow> Inr part)"

fun decode_chunks :: "pylib \<Rightarrow> str list \<Rightarrow> (chunk \<times> str option) list \<Rightarrow> error + str list" where
  "decode_chunks lib result [] = Inr result"
| "decode_chunks lib result (pe # rest) =
     (case decode_chunk lib pe of
        Inl e \<Rightarrow> Inl e
      | Inr t \<Rightarrow> decode_chunks lib (result @ [t]) rest)"

text \<open>Lines 461-475; \<open>header\<close> is \<open>None\<close> when the message has no such header.\<close>

definition decode_header :: "pylib \<Rightarrow> str option \<Rightarrow> error + str" where
  "decode_header lib header =
     (case header of
        None \<Rightarrow> Inr []
      | Some h \<Rightarrow>
          if h = [] then Inr []
          else
            (case email_decode_header lib h of
               Inl e \<Rightarrow> Inl e
             | Inr decoded_parts \<Rightarrow>
                 (case decode_chunks lib [] decoded_parts of
                    Inl e \<Rightarrow> Inl e
                  | Inr result \<Rightarrow> Inr (join '' '' result))))"

section \<open>\<open>EmailReader._get_attachments\<close>\<close>

text \<open>
  \<open>part.get_content_disposition()\<close>: \<open>str()\<close> of the header value up to the first \<open>;\<close>,
  stripped and in lower case, or \<open>None\<close> without the header.
\<close>

definition get_content_disposition :: "message \<Rightarrow> str option" where
  "get_content_disposition part =
     (case get part ''content-disposition'' of
        None \<Rightarrow> None
      | Some v \<Rightarrow>
          Some (lower (strip_ws (takeWhile (\<lambda>c. c \<noteq> CHR '';'') (py_str (Some v))))))"

text \<open>One iteration of the loop of lines 508-512.\<close>

definition attachment_step :: "pylib \<Rightarrow> str list \<Rightarrow> message \<Rightarrow> error + str list" where
  "attachment_step lib attachments part =
     (if get_content_disposition part = Some ''attachment'' then
        (case get_filename part of
           None \<Rightarrow> Inr attachments
         | Some filename \<Rightarrow>
             if filename \<noteq> [] then
               (case decode_header lib (Some filename) of
                  Inl e \<Rightarrow> Inl e
                | Inr name \<Rightarrow> Inr (attachments @ [name]))
             else Inr attachments)
      else Inr attachments)"

fun attachment_loop :: "pylib \<Rightarrow> str list \<Rightarrow> message list \<Rightarrow> error + str list" where
  "attachment_loop lib attachments [] = Inr attachments"
| "attachment_loop lib attachments (part # rest) =
     (case attachment_step lib attachments part of
        Inl e \<Rightarrow> Inl e
      | Inr attachments' \<Rightarrow> attachment_loop lib attachments' rest)"

definition get_attachments :: "pylib \<Rightarrow> message \<Rightarrow> error + str list" where
  "get_attachments lib msg = attachment_loop lib [] (walk msg)"

section \<open>\<open>EmailReader._get_web_link\<close>\<close>

definition hex_digit :: "bool \<Rightarrow> nat \<Rightarrow> char" where
  "hex_digit upper k =
     (if upper then ''0123456789ABCDEF'' else ''0123456789abcdef'') ! (k mod 16)"

text \<open>\<open>format(n, 'x')\<close>\<close>

function hex_nat :: "nat \<Rightarrow> str" where
  "hex_nat n = (if n < 16 then [hex_digit False n] else hex_nat (n div 16) @ [hex_digit False n])"
  by pat_completeness auto
termination
  by (relation "measure (\<lambda>n. n)") auto

definition format_x :: "int \<Rightarrow> str" where
  "format_x n = (if n < 0 then ''-'' @ hex_nat (nat (- n)) else hex_nat (nat n))"

text \<open>
  \<open>urllib.parse.quote(s, safe='')\<close>: letters, digits and \<open>_.-~\<close> stay; every other
  character is encoded in UTF-8 (two bytes for the code points 128..255) and each byte
  written as \<open>%XX\<close>.
\<close>

definition always_safe :: "char \<Rightarrow> bool" where
  "always_safe c =
     (let n = (of_char c :: nat) in
      (65 \<le> n \<and> n \<le> 90) \<or> (97 \<le> n \<and> n \<le> 122) \<or> (48 \<le> n \<and> n \<le> 57)
      \<or> c \<in> set ''_.-~'')"

definition percent :: "nat \<Rightarrow> str" where
  "percent b = [CHR ''%'', hex_digit True (b div 16), hex_digit True b]"

definition quote_one :: "char \<Rightarrow> str" where
  "quote_one c =
     (let n = (of_char c :: nat) in
      if always_safe c then [c]
      else if n < 128 then percent n
      else percent (192 + n div 64) @ percent (128 + n mod 64))"

definition quote :: "str \<Rightarrow> str" where
  "quote s = concat (map quote_one s)"

text \<open>Lines 526-546; \<open>provider\<close> is \<open>self.config.provider\<close>.\<close>

definition search_link :: "str \<Rightarrow> str \<Rightarrow> str" where
  "search_link provider message_id =
     (if message_id = [] then []
      else
        (let clean_id = replace ''>'' [] (replace ''<'' [] message_id) in
         if provider = ''gmail'' then
           ''https://mail.google.com/mail/u/0/#search/rfc822msgid%3A'' @ quote clean_id
         else if provider = ''zoho'' then
           ''https://mail.zoho.com/zm/#search/msgid/'' @ clean_id
         else if provider = ''fastmail'' then
           ''https://app.fastmail.com/mail/search:msgid:'' @ clean_id
         else ''https://mail.'' @ provider @ ''.com/search?q='' @ clean_id))"

text \<open>
  Lines 516-546. The builtin \<open>int\<close> on a string is the parameter \<open>int_of\<close>, \<open>None\<close>
  when \<open>int\<close> raises \<open>ValueError\<close>.
\<close>

definition get_web_link ::
  "(str \<Rightarrow> int option) \<Rightarrow> str \<Rightarrow> str \<Rightarrow> str option \<Rightarrow> str" where
  "get_web_link int_of provider message_id gmail_msg_id =
     (case (if provider = ''gmail'' then gmail_msg_id else None) of
        None \<Rightarrow> search_link provider message_id
      | Some g \<Rightarrow>
          if g = [] then search_link provider message_id
          else
            (case int_of g of
               Some n \<Rightarrow> ''https://mail.google.com/mail/u/0/#inbox/'' @ format_x n
             | None \<Rightarrow> search_link provider message_id))"

section \<open>The search criteria of \<open>EmailReader.read\<close>\<close>

text \<open>
  A date is its proleptic Gregorian ordinal (\<open>date.toordinal()\<close>, 1 for 0001-01-01);
  \<open>ord2ymd\<close> is \<open>datetime._ord2ymd\<close>.
\<close>

definition days_before_month :: "int list" where
  "days_before_month = [-1, 0, 31, 59, 90, 120, 151, 181, 212, 243, 273, 304, 334]"

definition days_in_month :: "int list" where
  "days_in_month = [-1, 31, 28, 31, 30, 31, 30, 31, 31, 30, 31, 30, 31]"

definition ord2ymd :: "int \<Rightarrow> int \<times> int \<times> int" where
  "ord2ymd ordinal =
     (let n = ordinal - 1;
          n400 = n div 146097; n = n mod 146097;
          n100 = n div 36524; n = n mod 36524;
          n4 = n div 1461; n = n mod 1461;
          n1 = n div 365; n = n mod 365;
          year = n400 * 400 + 1 + n100 * 100 + n4 * 4 + n1
      in if n1 = 4 \<or> n100 = 4 then (year - 1, 12, 31)
         else
           (let leapyear = (n1 = 3 \<and> (n4 \<noteq> 24 \<or> n100 = 3));
                month = (n + 50) div 32;
                preceding = days_before_month ! nat month
                            + (if month > 2 \<and> leapyear then 1 else 0)
            in if preceding > n then
                 (let month' = month - 1;
                      preceding' = preceding
                        - (days_in_month ! nat month'
                           + (if month' = 2 \<and> leapyear then 1 else 0))
                  in (year, month', n - preceding' + 1))
               else (year, month, n - preceding + 1)))"

function dec_nat :: "nat \<Rightarrow> str" where
  "dec_nat n =
     (if n < 10 then [''0123456789'' ! n]
      else dec_nat (n div 10) @ [''0123456789'' ! (n mod 10)])"
  by pat_completeness auto
termination
  by (relation "measure (\<lambda>n. n)") auto

definition month_abbr :: "str list" where
  "month_abbr = [[], ''Jan'', ''Feb'', ''Mar'', ''Apr'', ''May'', ''Jun'', ''Jul'',
                 ''Aug'', ''Sep'', ''Oct'', ''Nov'', ''Dec'']"

text \<open>
  \<open>strftime("%d-%b-%Y")\<close> in the C locale: the day in two digits, the English month
  abbreviation, the year in decimal (four digits from the year 1000 on).
\<close>

definition strftime_d_b_Y :: "int \<Rightarrow> str" where
  "strftime_d_b_Y ordinal =
     (case ord2ymd ordinal of
        (y, m, d) \<Rightarrow>
          (if d < 10 then ''0'' else []) @ dec_nat (nat d) @ ''-''
          @ month_abbr ! nat m @ ''-'' @ dec_nat (nat y))"

text \<open>
  Line 403: \<open>(datetime.now() - timedelta(days=days)).strftime("%d-%b-%Y")\<close>, where
  \<open>today\<close> is the ordinal of \<open>datetime.now()\<close>. \<open>timedelta\<close> raises \<open>OverflowError\<close> beyond
  999999999 days, and the subtraction raises it outside the years 1..9999.
\<close>

definition since_date :: "int \<Rightarrow> int \<Rightarrow> error + str" where
  "since_date today days =
     (if \<bar>days\<bar> > 999999999 then Inl OverflowError
      else if today - days < 1 \<or> today - days > 3652059 then Inl OverflowError
      else Inr (strftime_d_b_Y (today - days)))"

text \<open>Line 406.\<close>

definition search_string :: "str list \<Rightarrow> str" where
  "search_string criteria = (if criteria \<noteq> [] then join '' '' criteria else ''ALL'')"

text \<open>Lines 394-406 of \<open>read\<close>: the string handed to \<open>imap.search\<close>.\<close>

definition build_search ::
  "int \<Rightarrow> str option \<Rightarrow> str option \<Rightarrow> bool \<Rightarrow> int option \<Rightarrow> error + str" where
  "build_search today from_address subject_filter unread_only days =
     (let criteria = [];
          criteria =
            (case from_address of
               None \<Rightarrow> criteria
             | Some a \<Rightarrow>
                 if a \<noteq> [] then criteria @ [''FROM '' @ [dquote] @ a @ [dquote]]
                 else criteria);
          criteria =
            (case subject_filter of
               None \<Rightarrow> criteria
             | Some f \<Rightarrow>
                 if f \<noteq> [] then criteria @ [''SUBJECT '' @ [dquote] @ f @ [dquote]]
                 else criteria);
          criteria = (if unread_only then criteria @ [''UNSEEN''] else criteria)
      in case days of
           None \<Rightarrow> Inr (search_string criteria)
         | Some d \<Rightarrow>
             if d \<noteq> 0 then
               (case since_date today d of
                  Inl e \<Rightarrow> Inl e
                | Inr date \<Rightarrow> Inr (search_string (criteria @ [''SINCE '' @ date])))
             else Inr (search_string criteria))"


section \<open>Notions used to state the properties\<close>

subsection \<open>Bodies and attachments\<close>

text \<open>
  A part that the loop of \<open>_get_email_body\<close> takes as a body of content type \<open>ct\<close>: it
  passes the test of line 487 and has that content type.
\<close>

definition body_part :: "str \<Rightarrow> message \<Rightarrow> bool" where
  "body_part ct part = (not_attachment part \<and> get_content_type part = ct)"

text \<open>
  The text of the last such part in the walk of a message, empty when there is none (or
  when the part has no text of its own).
\<close>

definition last_text :: "str \<Rightarrow> message \<Rightarrow> str" where
  "last_text ct msg =
     (case rev (filter (body_part ct) (walk msg)) of
        [] \<Rightarrow> []
      | part # earlier \<Rightarrow> (case payload_text part of Inl e \<Rightarrow> [] | Inr t \<Rightarrow> t))"

text \<open>
  A message with a text part whose text is there to return: in a multipart message the
  last \<open>text/plain\<close> part or the last \<open>text/html\<close> part that passes the attachment test
  has a text that is not empty; a message that is not multipart is itself a
  \<open>text/plain\<close> or \<open>text/html\<close> part with a text that is not empty.
\<close>

definition has_text :: "message \<Rightarrow> bool" where
  "has_text msg =
     (if is_multipart msg
      then last_text ''text/plain'' msg \<noteq> [] \<or> last_text ''text/html'' msg \<noteq> []
      else (get_content_type msg = ''text/plain'' \<or> get_content_type msg = ''text/html'')
           \<and> payload msg \<noteq> [])"

text \<open>A part that \<open>_get_attachments\<close> lists: an attachment with a filename.\<close>

definition named_attachment :: "message \<Rightarrow> bool" where
  "named_attachment part =
     (get_content_disposition part = Some ''attachment''
      \<and> (case get_filename part of None \<Rightarrow> False | Some f \<Rightarrow> f \<noteq> []))"

subsection \<open>Header decoding\<close>

text \<open>
  The library on the headers of the examples: \<open>decode_header('=?us-ascii?q?a=FFb?=')\<close>
  is \<open>[(b'a\xffb', 'us-ascii')]\<close>, \<open>decode_header('=?x-unknown?q?abc?=')\<close> is
  \<open>[(b'abc', 'x-unknown')]\<close>, a header without an encoded word is returned as it is
  with no charset, \<open>decode_header('=?undefined?q?abc?=')\<close> is \<open>[(b'abc', 'undefined')]\<close>,
  there is no codec named \<open>x-unknown\<close>, and the codec \<open>undefined\<close> raises
  \<open>UnicodeError\<close> on every non-empty input, whatever the error handler.
\<close>

definition undefined_codec :: codec where
  "undefined_codec bs = (if bs = [] then Inr [] else Inl UnicodeError)"

definition sample_lib :: pylib where
  "sample_lib =
     \<lparr>email_decode_header =
        (\<lambda>h. if h = ''=?us-ascii?q?a=FFb?=''
                then Inr [(Bytes [CHR ''a'', CHR 0xFF, CHR ''b''], Some ''us-ascii'')]
              else if h = ''=?x-unknown?q?abc?=''
                then Inr [(Bytes ''abc'', Some ''x-unknown'')]
              else if h = ''=?undefined?q?abc?=''
                then Inr [(Bytes ''abc'', Some ''undefined'')]
              else Inr [(Text h, None)]),
      codecs_lookup =
        (\<lambda>n. if n = ''us-ascii'' \<or> n = ''ascii'' then Some ascii_codec
              else if n = ''undefined'' then Some undefined_codec else None)\<rparr>"




subsection \<open>Search criteria\<close>

text \<open>
  The number of filters that are given, as the spec has them: each of the sender, the
  subject and the age is given or not, and the unread flag is set or not.
\<close>

definition given_filters :: "str option \<Rightarrow> str option \<Rightarrow> bool \<Rightarrow> int option \<Rightarrow> nat" where
  "given_filters from_address subject_filter unread_only days =
     (case from_address of None \<Rightarrow> 0 | Some a \<Rightarrow> 1)
     + (case subject_filter of None \<Rightarrow> 0 | Some f \<Rightarrow> 1)
     + (if unread_only then 1 else 0)
     + (case days of None \<Rightarrow> 0 | Some d \<Rightarrow> 1)"

text \<open>
  The clauses of the filters whose value is not empty: a sender and a subject that are
  not the empty string, a true unread flag, and the clause of the age, which is given
  apart; in the order sender, subject, unread, age.
\<close>

definition clauses :: "str option \<Rightarrow> str option \<Rightarrow> bool \<Rightarrow> str list \<Rightarrow> str list" where
  "clauses from_address subject_filter unread_only since =
     (case from_address of None \<Rightarrow> []
      | Some a \<Rightarrow> if a = [] then [] else [''FROM '' @ [dquote] @ a @ [dquote]])
     @ (case subject_filter of None \<Rightarrow> []
      | Some f \<Rightarrow> if f = [] then [] else [''SUBJECT '' @ [dquote] @ f @ [dquote]])
     @ (if unread_only then [''UNSEEN''] else [])
     @ since"

text \<open>
  The Gregorian calendar: leap years, the lengths of the months, and the number of a
  day, counted from 1 for the first of January of the year 1: the days of the years
  before, the days of the months before, and the day of the month.
\<close>

definition is_leap :: "int \<Rightarrow> bool" where
  "is_leap y = (y mod 4 = 0 \<and> (y mod 100 \<noteq> 0 \<or> y mod 400 = 0))"

definition month_length :: "int \<Rightarrow> int \<Rightarrow> int" where
  "month_length y m =
     (if m = 2 then (if is_leap y then 29 else 28)
      else if m = 4 \<or> m = 6 \<or> m = 9 \<or> m = 11 then 30 else 31)"

definition day_number :: "int \<Rightarrow> int \<Rightarrow> int \<Rightarrow> int" where
  "day_number y m d =
     365 * (y - 1) + (y - 1) div 4 - (y - 1) div 100 + (y - 1) div 400
     + sum_list (map (month_length y) [1..m - 1]) + d"

definition valid_date :: "int \<Rightarrow> int \<Rightarrow> int \<Rightarrow> bool" where
  "valid_date y m d =
     (1 \<le> y \<and> 1 \<le> m \<and> m \<le> 12 \<and> 1 \<le> d \<and> d \<le> month_length y m)"

text \<open>
  A date written as the search protocol wants it: the day in two digits, the English
  abbreviation of the month, the year in digits, with \<open>-\<close> between them.
\<close>

definition is_digit :: "char \<Rightarrow> bool" where
  "is_digit c = (48 \<le> (of_char c :: nat) \<and> (of_char c :: nat) \<le> 57)"

definition digits_value :: "str \<Rightarrow> nat" where
  "digits_value s = foldl (\<lambda>v c. 10 * v + ((of_char c :: nat) - 48)) 0 s"

definition english_months :: "str list" where
  "english_months = [''Jan'', ''Feb'', ''Mar'', ''Apr'', ''May'', ''Jun'', ''Jul'', ''Aug'',
                     ''Sep'', ''Oct'', ''Nov'', ''Dec'']"

definition date_text :: "int \<Rightarrow> int \<Rightarrow> int \<Rightarrow> str \<Rightarrow> bool" where
  "date_text y m d s =
     (let dd = take 2 s; mon = take 3 (drop 3 s); yyyy = drop 7 s
      in s = dd @ ''-'' @ mon @ ''-'' @ yyyy
         \<and> length dd = 2 \<and> list_all is_digit dd \<and> digits_value dd = nat d
         \<and> mon = english_months ! nat (m - 1)
         \<and> yyyy \<noteq> [] \<and> list_all is_digit yyyy \<and> digits_value yyyy = nat y)"

text \<open>
  The month and the day of the month that \<open>ord2ymd\<close> computes from the day of the year,
  counted from 0.
\<close>

definition month_day :: "bool \<Rightarrow> int \<Rightarrow> int \<times> int" where
  "month_day leapyear n =
     (let month = (n + 50) div 32;
          preceding = days_before_month ! nat month
                      + (if month > 2 \<and> leapyear then 1 else 0)
      in if preceding > n then
           (let month' = month - 1;
                preceding' = preceding
                  - (days_in_month ! nat month' + (if month' = 2 \<and> leapyear then 1 else 0))
            in (month', n - preceding' + 1))
         else (month, n - preceding + 1))"

subsection \<open>Unsubscribe links\<close>

text \<open>
  The order the spec describes for the links: each link at the place where it is first
  seen, every later occurrence removed.
\<close>

function first_seen :: "'a list \<Rightarrow> 'a list" where
  "first_seen [] = []"
| "first_seen (x # xs) = x # first_seen (filter (\<lambda>y. y \<noteq> x) xs)"
  by pat_completeness auto
termination
  by (relation "measure length") (auto simp: less_Suc_eq_le)

text \<open>
  What each rule finds in a body before the tests of \<open>add_link\<close>: the \<open>href\<close> of the
  anchors whose text has a word of line 607; those of the two proximity patterns; and,
  for the URL patterns in the order of the source, the cleaned matches.
\<close>

definition anchor_candidates :: "str \<Rightarrow> str list" where
  "anchor_candidates body =
     map group1
       (filter (\<lambda>m. search True link_text_re (group2 m)) (scan True link_pattern body))"

definition html_candidates :: "str \<Rightarrow> str list" where
  "html_candidates body =
     anchor_candidates body @ findall1 True unsub_before_link_re body
     @ findall1 True unsub_in_link_re body"

definition url_candidates :: "str \<Rightarrow> str list" where
  "url_candidates body =
     concat (map (\<lambda>pattern. map clean_url (findall0 True pattern body))
               unsubscribe_patterns)"

text \<open>
  The candidates of the two passes of line 580, on the body of the pass that prefers
  HTML and on the body of the pass that does not; an empty body is skipped.
\<close>

definition body_candidates :: "str \<Rightarrow> str \<Rightarrow> str list" where
  "body_candidates html_pass plain_pass =
     (if html_pass \<noteq> [] then html_candidates html_pass @ url_candidates html_pass else [])
     @ (if plain_pass \<noteq> [] then url_candidates plain_pass else [])"








text \<open>A message whose header of that name, if it is there, is a \<open>str\<close>.\<close>

definition str_header :: "message \<Rightarrow> str \<Rightarrow> bool" where
  "str_header msg name =
     (case get msg name of None \<Rightarrow> True | Some (Str v) \<Rightarrow> True | Some (Header h) \<Rightarrow> False)"

text \<open>
  An HTML message whose one link is in the header, in an anchor with the text
  \<open>unsubscribe\<close> and in a URL with \<open>/unsub\<close>.
\<close>

definition sample_html :: str where
  "sample_html =
     ''<a href='' @ [dquote] @ ''http://a.io/unsub'' @ [dquote] @ ''>unsubscribe</a>''"

definition sample_msg :: message where
  "sample_msg =
     Leaf [(''List-Unsubscribe'', Str ''<http://a.io/unsub>, <mailto:u@a.io>'')]
       ''text/html'' None sample_html"

section \<open>Properties of the body extraction\<close>

lemma body_loop_plain:
  "body_loop acc ps = Inr (p, h) \<Longrightarrow>
     (if filter (body_part ''text/plain'') ps = [] then p = fst acc
      else payload_text (last (filter (body_part ''text/plain'') ps)) = Inr p)"
proof (induction ps arbitrary: acc)
  case Nil
  then show ?case by simp
next
  case (Cons x xs)
  from Cons.prems obtain acc' where s: "body_step acc x = Inr acc'"
    and l: "body_loop acc' xs = Inr (p, h)"
    by (auto split: sum.splits)
  note ih = Cons.IH [OF l]
  show ?case
  proof (cases "body_part ''text/plain'' x")
    case True
    with s obtain t where "payload_text x = Inr t" "acc' = (t, snd acc)"
      by (auto simp: body_step_def body_part_def split: sum.splits)
    with ih True show ?thesis by (auto split: if_splits)
  next
    case False
    with s have "fst acc' = fst acc"
      by (auto simp: body_step_def body_part_def split: sum.splits if_splits)
    with ih False show ?thesis by (auto split: if_splits)
  qed
qed

lemma body_loop_html:
  "body_loop acc ps = Inr (p, h) \<Longrightarrow>
     (if filter (body_part ''text/html'') ps = [] then h = snd acc
      else payload_text (last (filter (body_part ''text/html'') ps)) = Inr h)"
proof (induction ps arbitrary: acc)
  case Nil
  then show ?case by simp
next
  case (Cons x xs)
  from Cons.prems obtain acc' where s: "body_step acc x = Inr acc'"
    and l: "body_loop acc' xs = Inr (p, h)"
    by (auto split: sum.splits)
  note ih = Cons.IH [OF l]
  show ?case
  proof (cases "body_part ''text/html'' x")
    case True
    with s obtain t where "payload_text x = Inr t" "acc' = (fst acc, t)"
      by (auto simp: body_step_def body_part_def split: sum.splits if_splits)
    with ih True show ?thesis by (auto split: if_splits)
  next
    case False
    with s have "snd acc' = snd acc"
      by (auto simp: body_step_def body_part_def split: sum.splits if_splits)
    with ih False show ?thesis by (auto split: if_splits)
  qed
qed

lemma body_step_parsed: "parsed part \<Longrightarrow> \<exists>acc'. body_step acc part = Inr acc'"
  by (cases part) (auto simp: body_step_def)

lemma parsed_walk: "parsed m \<Longrightarrow> list_all parsed (walk m)"
  by (induction m rule: walk.induct) (auto simp: list_all_iff)

lemma body_loop_parsed: "list_all parsed ps \<Longrightarrow> \<exists>r. body_loop acc ps = Inr r"
proof (induction ps arbitrary: acc)
  case Nil
  then show ?case by simp
next
  case (Cons x xs)
  from Cons.prems have "parsed x" and xs: "list_all parsed xs" by simp_all
  from body_step_parsed [OF \<open>parsed x\<close>] obtain acc' where "body_step acc x = Inr acc'"
    by blast
  with Cons.IH [OF xs, of acc'] show ?case by simp
qed

lemma captured_parsed: "parsed m \<Longrightarrow> \<exists>p h. captured_bodies m = Inr (p, h)"
proof (cases m)
  case (Leaf h c f t)
  then show ?thesis by (auto simp: captured_bodies_def)
next
  case (Multipart h c f ps)
  assume "parsed m"
  then have "list_all parsed (walk m)" by (rule parsed_walk)
  then obtain r where "body_loop ([], []) (walk m) = Inr r"
    using body_loop_parsed by blast
  with Multipart show ?thesis by (cases r) (auto simp: captured_bodies_def)
qed

lemma get_email_body_parsed: "parsed m \<Longrightarrow> \<exists>body. get_email_body m prefer = Inr body"
  using captured_parsed [of m] by (auto simp: get_email_body_def)

lemmas body_eval = captured_bodies_def body_step_def not_attachment_def get_def py_str_def
  body_part_def get_email_body_def resolve_body_def

text \<open>
  Claim C1, as the spec states it, fails: in a multipart message with two \<open>text/plain\<close>
  parts the captured plain body is the text of the second part, not of the first.
\<close>

theorem first_wins_counterexample:
  "captured_bodies (Multipart [] ''multipart/alternative'' None
      [Leaf [] ''text/plain'' None ''first'', Leaf [] ''text/plain'' None ''second''])
     = Inr (''second'', [])
   \<and> payload_text (hd (filter (body_part ''text/plain'')
        (walk (Multipart [] ''multipart/alternative'' None
          [Leaf [] ''text/plain'' None ''first'', Leaf [] ''text/plain'' None ''second'']))))
     = Inr ''first''"
  by (simp add: body_eval)

text \<open>
  Claim C1, amended: in the traversal of a multipart message the captured plain body is
  the text of the last \<open>text/plain\<close> part that passes the attachment test, and the
  captured HTML body is the text of the last such \<open>text/html\<close> part (each later part of
  a type overwrites the earlier capture); a body with no such part stays empty.
\<close>

theorem last_wins:
  assumes "is_multipart msg" and "captured_bodies msg = Inr (plain_body, html_body)"
  shows "(if filter (body_part ''text/plain'') (walk msg) = [] then plain_body = []
          else payload_text (last (filter (body_part ''text/plain'') (walk msg)))
                 = Inr plain_body)
       \<and> (if filter (body_part ''text/html'') (walk msg) = [] then html_body = []
          else payload_text (last (filter (body_part ''text/html'') (walk msg)))
                 = Inr html_body)"
proof -
  from assms have l: "body_loop ([], []) (walk msg) = Inr (plain_body, html_body)"
    by (simp add: captured_bodies_def)
  from body_loop_plain [OF l] body_loop_html [OF l] show ?thesis by simp
qed

theorem last_wins_witness:
  "is_multipart (Multipart [] ''multipart/alternative'' None
      [Leaf [] ''text/plain'' None ''first'', Leaf [] ''text/html'' None ''<p>one</p>'',
       Leaf [] ''text/plain'' None ''second''])
   \<and> captured_bodies (Multipart [] ''multipart/alternative'' None
      [Leaf [] ''text/plain'' None ''first'', Leaf [] ''text/html'' None ''<p>one</p>'',
       Leaf [] ''text/plain'' None ''second'']) = Inr (''second'', ''<p>one</p>'')
   \<and> payload_text (last (filter (body_part ''text/plain'')
        (walk (Multipart [] ''multipart/alternative'' None
          [Leaf [] ''text/plain'' None ''first'', Leaf [] ''text/html'' None ''<p>one</p>'',
           Leaf [] ''text/plain'' None ''second''])))) = Inr ''second''"
proof -
  let ?m = "Multipart [] ''multipart/alternative'' None
      [Leaf [] ''text/plain'' None ''first'', Leaf [] ''text/html'' None ''<p>one</p>'',
       Leaf [] ''text/plain'' None ''second'']"
  have m: "is_multipart ?m" by simp
  have c: "captured_bodies ?m = Inr (''second'', ''<p>one</p>'')" by (simp add: body_eval)
  have f: "filter (body_part ''text/plain'') (walk ?m) \<noteq> []" by (simp add: body_eval)
  from last_wins [OF m c] f m c show ?thesis by simp
qed

lemma last_text_filter:
  "last_text ct msg =
     (if filter (body_part ct) (walk msg) = [] then []
      else (case payload_text (last (filter (body_part ct) (walk msg))) of
              Inl e \<Rightarrow> [] | Inr t \<Rightarrow> t))"
proof (cases "filter (body_part ct) (walk msg)" rule: rev_cases)
  case Nil
  then show ?thesis by (simp add: last_text_def)
next
  case (snoc ps p)
  then show ?thesis by (simp add: last_text_def)
qed

lemma captured_last_text:
  assumes "is_multipart msg" and "captured_bodies msg = Inr (plain_body, html_body)"
  shows "plain_body = last_text ''text/plain'' msg" and "html_body = last_text ''text/html'' msg"
proof -
  from assms have l: "body_loop ([], []) (walk msg) = Inr (plain_body, html_body)"
    by (simp add: captured_bodies_def)
  from body_loop_plain [OF l] show "plain_body = last_text ''text/plain'' msg"
    by (simp add: last_text_filter split: if_splits)
  from body_loop_html [OF l] show "html_body = last_text ''text/html'' msg"
    by (simp add: last_text_filter split: if_splits)
qed

lemma has_text_captured:
  assumes "has_text msg" and "captured_bodies msg = Inr (plain_body, html_body)"
  shows "plain_body \<noteq> [] \<or> html_body \<noteq> []"
proof (cases msg)
  case (Leaf h c f t)
  with assms show ?thesis by (auto simp: has_text_def captured_bodies_def split: if_splits)
next
  case (Multipart h c f ps)
  then have m: "is_multipart msg" by simp
  from captured_last_text [OF m assms(2)] assms(1) m show ?thesis
    by (simp add: has_text_def)
qed

text \<open>
  Claim C2, as the spec states it, fails. A message that is a single \<open>text/plain\<close> part
  with an empty payload has a text part and an empty body, under both preferences. So
  has a multipart message whose \<open>text/plain\<close> part with a text is followed by an empty
  \<open>text/plain\<close> part, and one whose only text part carries the word \<open>attachment\<close> in
  its \<open>Content-Disposition\<close>.
\<close>

theorem text_part_empty_body_counterexample:
  "get_content_type (hd (walk (Leaf [] ''text/plain'' None []))) = ''text/plain''
   \<and> get_email_body (Leaf [] ''text/plain'' None []) False = Inr []
   \<and> get_email_body (Leaf [] ''text/plain'' None []) True = Inr []
   \<and> get_email_body (Multipart [] ''multipart/mixed'' None
        [Leaf [] ''text/plain'' None ''hello'', Leaf [] ''text/plain'' None []]) False = Inr []
   \<and> get_email_body (Multipart [] ''multipart/mixed'' None
        [Leaf [] ''text/plain'' None ''hello'', Leaf [] ''text/plain'' None []]) True = Inr []
   \<and> get_email_body (Multipart [] ''multipart/mixed'' None
        [Leaf [(''Content-Disposition'', Str ''attachment; filename=notes.txt'')]
           ''text/plain'' (Some ''notes.txt'') ''notes'']) False = Inr []
   \<and> get_email_body (Multipart [] ''multipart/mixed'' None
        [Leaf [(''Content-Disposition'', Str ''attachment; filename=notes.txt'')]
           ''text/plain'' (Some ''notes.txt'') ''notes'']) True = Inr []"
  by (simp add: body_eval lower_def lower_char_def char_of_eq_iff)

text \<open>
  Claim C2, amended: for every parsed message whose MIME tree has a text part with a text
  to return (in a multipart message the last \<open>text/plain\<close> part or the last \<open>text/html\<close>
  part that passes the attachment test has a non-empty text; a message that is not
  multipart is a \<open>text/plain\<close> or \<open>text/html\<close> part with a non-empty text),
  \<open>extractBody\<close> returns a non-empty string, under either preference.
\<close>

theorem nonempty_body:
  "parsed msg \<and> has_text msg
     \<longrightarrow> (\<exists>body. get_email_body msg prefer_html = Inr body \<and> body \<noteq> [])"
proof
  assume a: "parsed msg \<and> has_text msg"
  then obtain p h where c: "captured_bodies msg = Inr (p, h)"
    using captured_parsed [of msg] by blast
  from has_text_captured [OF _ c] a have "p \<noteq> [] \<or> h \<noteq> []" by simp
  with c show "\<exists>body. get_email_body msg prefer_html = Inr body \<and> body \<noteq> []"
    by (auto simp: get_email_body_def resolve_body_def)
qed

theorem nonempty_body_witness:
  "parsed (Multipart [] ''multipart/mixed'' None
      [Leaf [] ''text/html'' None ''<p>old</p>'', Leaf [] ''text/html'' None ''<p>hi</p>''])
   \<and> has_text (Multipart [] ''multipart/mixed'' None
      [Leaf [] ''text/html'' None ''<p>old</p>'', Leaf [] ''text/html'' None ''<p>hi</p>''])
   \<and> get_email_body (Multipart [] ''multipart/mixed'' None
      [Leaf [] ''text/html'' None ''<p>old</p>'', Leaf [] ''text/html'' None ''<p>hi</p>''])
        False = Inr ''<p>hi</p>''
   \<and> (\<exists>body. get_email_body (Multipart [] ''multipart/mixed'' None
      [Leaf [] ''text/html'' None ''<p>old</p>'', Leaf [] ''text/html'' None ''<p>hi</p>''])
        True = Inr body \<and> body \<noteq> [])"
proof -
  let ?m = "Multipart [] ''multipart/mixed'' None
      [Leaf [] ''text/html'' None ''<p>old</p>'', Leaf [] ''text/html'' None ''<p>hi</p>'']"
  have p: "parsed ?m" by simp
  have t: "has_text ?m" by (simp add: has_text_def last_text_def body_eval)
  have g: "get_email_body ?m False = Inr ''<p>hi</p>''" by (simp add: body_eval)
  from nonempty_body [of ?m True] p t g show ?thesis by simp
qed

text \<open>
  Claim C7: with the captured bodies \<open>(plain_body, html_body)\<close>, the result is
  \<open>html_body\<close> if \<open>prefer_html\<close> holds and \<open>html_body\<close> is non-empty, otherwise
  \<open>plain_body\<close> if non-empty, otherwise \<open>html_body\<close>, otherwise the empty string; so
  with \<open>prefer_html\<close> a non-empty HTML body is returned whatever the plain body is, and
  without it a non-empty plain body is returned.
\<close>

theorem resolution_policy:
  assumes "captured_bodies msg = Inr (plain_body, html_body)"
  shows "get_email_body msg prefer_html =
           Inr (if prefer_html \<and> html_body \<noteq> [] then html_body
                else if plain_body \<noteq> [] then plain_body
                else if html_body \<noteq> [] then html_body else [])
       \<and> (if html_body \<noteq> [] then get_email_body msg True = Inr html_body
          else get_email_body msg True = Inr plain_body)
       \<and> (if plain_body \<noteq> [] then get_email_body msg False = Inr plain_body
          else get_email_body msg False = Inr html_body)"
  using assms by (simp add: get_email_body_def resolve_body_def)

theorem resolution_policy_witness:
  "captured_bodies (Multipart [] ''multipart/alternative'' None
      [Leaf [] ''text/plain'' None ''hi'', Leaf [] ''text/html'' None ''<p>hi</p>''])
     = Inr (''hi'', ''<p>hi</p>'')
   \<and> get_email_body (Multipart [] ''multipart/alternative'' None
      [Leaf [] ''text/plain'' None ''hi'', Leaf [] ''text/html'' None ''<p>hi</p>'']) True
     = Inr ''<p>hi</p>''
   \<and> get_email_body (Multipart [] ''multipart/alternative'' None
      [Leaf [] ''text/plain'' None ''hi'', Leaf [] ''text/html'' None ''<p>hi</p>'']) False
     = Inr ''hi''"
proof -
  let ?m = "Multipart [] ''multipart/alternative'' None
      [Leaf [] ''text/plain'' None ''hi'', Leaf [] ''text/html'' None ''<p>hi</p>'']"
  have c: "captured_bodies ?m = Inr (''hi'', ''<p>hi</p>'')"
    by (simp add: captured_bodies_def body_step_def not_attachment_def get_def py_str_def)
  from resolution_policy [OF c, of True] resolution_policy [OF c, of False] c
  show ?thesis by simp
qed

section \<open>Properties of the header decoding\<close>

lemmas lib_eval = sample_lib_def decode_header_def decode_chunk_def or_utf8_def
  ascii_codec_def stepwise_def undefined_codec_def







section \<open>Properties of the attachment list\<close>

lemma attachment_loop_acc:
  "attachment_loop lib acc ps = Inr names \<Longrightarrow>
     \<exists>new. names = acc @ new
       \<and> list_all2 (\<lambda>name part. decode_header lib (get_filename part) = Inr name)
            new (filter named_attachment ps)"
proof (induction ps arbitrary: acc)
  case Nil
  then show ?case by simp
next
  case (Cons x xs)
  from Cons.prems obtain acc' where s: "attachment_step lib acc x = Inr acc'"
    and l: "attachment_loop lib acc' xs = Inr names"
    by (auto split: sum.splits)
  from Cons.IH [OF l] obtain new where n: "names = acc' @ new"
    and a: "list_all2 (\<lambda>name part. decode_header lib (get_filename part) = Inr name)
              new (filter named_attachment xs)"
    by blast
  show ?case
  proof (cases "named_attachment x")
    case True
    with s obtain name where "decode_header lib (get_filename x) = Inr name"
      and "acc' = acc @ [name]"
      by (auto simp: attachment_step_def named_attachment_def
          split: option.splits sum.splits if_splits)
    with n a True show ?thesis by simp
  next
    case False
    with s have "acc' = acc"
      by (auto simp: attachment_step_def named_attachment_def
          split: option.splits sum.splits if_splits)
    with n a False show ?thesis by simp
  qed
qed

lemmas att_eval = get_attachments_def attachment_step_def get_content_disposition_def
  get_def lower_def lower_char_def strip_ws_def is_space_def named_attachment_def
  char_of_eq_iff py_str_def

text \<open>
  Claim C10: the names that \<open>extractAttachments\<close> returns are, one for one and in walk
  order, the decoded filenames of the parts that have the disposition \<open>attachment\<close> and
  a filename; a part without a filename leaves the list as it was.
\<close>

theorem attachments_named:
  "(get_attachments lib msg = Inr names \<longrightarrow>
      list_all2 (\<lambda>name part. decode_header lib (get_filename part) = Inr name)
        names (filter named_attachment (walk msg)))
   \<and> (get_filename part = None \<longrightarrow>
        attachment_step lib attachments part = Inr attachments)"
  using attachment_loop_acc [of lib "[]" "walk msg" names]
  by (auto simp: get_attachments_def attachment_step_def)

theorem attachments_named_witness:
  "get_attachments sample_lib (Multipart [] ''multipart/mixed'' None
      [Leaf [] ''text/plain'' None ''see attached'',
       Leaf [(''Content-Disposition'', Str ''attachment'')] ''application/pdf'' None ''x'',
       Leaf [(''Content-Disposition'', Str ''attachment; filename=a.pdf'')] ''application/pdf''
         (Some ''a.pdf'') ''y'']) = Inr [''a.pdf'']
  \<and> filter named_attachment (walk (Multipart [] ''multipart/mixed'' None
      [Leaf [] ''text/plain'' None ''see attached'',
       Leaf [(''Content-Disposition'', Str ''attachment'')] ''application/pdf'' None ''x'',
       Leaf [(''Content-Disposition'', Str ''attachment; filename=a.pdf'')] ''application/pdf''
         (Some ''a.pdf'') ''y''])) =
     [Leaf [(''Content-Disposition'', Str ''attachment; filename=a.pdf'')] ''application/pdf''
         (Some ''a.pdf'') ''y'']
  \<and> attachment_step sample_lib []
       (Leaf [(''Content-Disposition'', Str ''attachment'')] ''application/pdf'' None ''x'')
     = Inr []"
proof -
  let ?m = "Multipart [] ''multipart/mixed'' None
      [Leaf [] ''text/plain'' None ''see attached'',
       Leaf [(''Content-Disposition'', Str ''attachment'')] ''application/pdf'' None ''x'',
       Leaf [(''Content-Disposition'', Str ''attachment; filename=a.pdf'')] ''application/pdf''
         (Some ''a.pdf'') ''y'']"
  have g: "get_attachments sample_lib ?m = Inr [''a.pdf'']"
    by (simp add: att_eval lib_eval)
  have f: "filter named_attachment (walk ?m) =
     [Leaf [(''Content-Disposition'', Str ''attachment; filename=a.pdf'')] ''application/pdf''
         (Some ''a.pdf'') ''y'']"
    by (simp add: att_eval)
  from attachments_named [of sample_lib ?m "[''a.pdf'']"
      "Leaf [(''Content-Disposition'', Str ''attachment'')] ''application/pdf'' None ''x''" "[]"]
    g f show ?thesis by simp
qed

section \<open>Properties of the web link\<close>

text \<open>
  Claim C4 on the message identifier \<open>a&b#c@x.test\<close>: for the provider \<open>zoho\<close> the
  link holds the identifier as it is, while its percent-encoding is
  \<open>a%26b%23c%40x.test\<close>, which is what the link for \<open>gmail\<close> holds.
\<close>

theorem web_link_unencoded:
  "get_web_link int_of ''zoho'' ''a&b#c@x.test'' gmail_msg_id
     = ''https://mail.zoho.com/zm/#search/msgid/a&b#c@x.test''
   \<and> quote ''a&b#c@x.test'' = ''a%26b%23c%40x.test''
   \<and> get_web_link int_of ''gmail'' ''a&b#c@x.test'' None
     = ''https://mail.google.com/mail/u/0/#search/rfc822msgid%3Aa%26b%23c%40x.test''"
  by (simp add: get_web_link_def search_link_def quote_def quote_one_def always_safe_def
      percent_def hex_digit_def)

section \<open>Properties of the search criteria\<close>

subsection \<open>The calendar\<close>

lemma cum_months:
  "sum_list (map (month_length y) [1..m - 1]) =
     (if m = 1 then 0 else if m = 2 then 31 else
      (if is_leap y then 1 else 0) +
      (if m = 3 then 59 else if m = 4 then 90 else if m = 5 then 120 else if m = 6 then 151
       else if m = 7 then 181 else if m = 8 then 212 else if m = 9 then 243
       else if m = 10 then 273 else if m = 11 then 304 else 334))"
  if "1 \<le> m" "m \<le> 12"
proof -
  from that have "m = 1 \<or> m = 2 \<or> m = 3 \<or> m = 4 \<or> m = 5 \<or> m = 6 \<or> m = 7 \<or> m = 8
      \<or> m = 9 \<or> m = 10 \<or> m = 11 \<or> m = 12" by arith
  then show ?thesis
    by (elim disjE) (simp_all add: month_length_def upto.simps)
qed

lemma month_day_ok:
  assumes "0 \<le> n" "n \<le> 364" "month_day (is_leap y) n = (m, d)"
  shows "1 \<le> m \<and> m \<le> 12 \<and> 1 \<le> d \<and> d \<le> month_length y m
         \<and> sum_list (map (month_length y) [1..m - 1]) + d = n + 1"
proof -
  define k where "k = (n + 50) div 32"
  from assms(1,2) have kb: "1 \<le> k" "k \<le> 12" unfolding k_def by arith+
  have kr: "32 * k \<le> n + 50" "n + 50 < 32 * k + 32" unfolding k_def by arith+
  from kb have "k = 1 \<or> k = 2 \<or> k = 3 \<or> k = 4 \<or> k = 5 \<or> k = 6 \<or> k = 7 \<or> k = 8
      \<or> k = 9 \<or> k = 10 \<or> k = 11 \<or> k = 12" by arith
  then have "1 \<le> m \<and> m \<le> 12 \<and> 1 \<le> d \<and> d \<le> month_length y m
         \<and> (if m = 1 then 0 else if m = 2 then 31 else
      (if is_leap y then 1 else 0) +
      (if m = 3 then 59 else if m = 4 then 90 else if m = 5 then 120 else if m = 6 then 151
       else if m = 7 then 181 else if m = 8 then 212 else if m = 9 then 243
       else if m = 10 then 273 else if m = 11 then 304 else 334)) + d = n + 1"
    using kr assms unfolding month_day_def k_def [symmetric] Let_def
    by (elim disjE)
      (auto simp: days_before_month_def days_in_month_def month_length_def split: if_splits)
  then show ?thesis by (simp add: cum_months)
qed

lemma ord2ymd_alt:
  "ord2ymd ordinal =
     (let n0 = ordinal - 1;
          a = n0 div 146097; r1 = n0 mod 146097;
          b = r1 div 36524; r2 = r1 mod 36524;
          c = r2 div 1461; r3 = r2 mod 1461;
          e = r3 div 365; r4 = r3 mod 365;
          year = a * 400 + 1 + b * 100 + c * 4 + e
      in if e = 4 \<or> b = 4 then (year - 1, 12, 31)
         else (case month_day (e = 3 \<and> (c \<noteq> 24 \<or> b = 3)) r4 of
                 (m, d) \<Rightarrow> (year, m, d)))"
  unfolding ord2ymd_def month_day_def
  apply (rule arg_cong [where f = "Let (ordinal - 1)"])
  apply (rule ext)
  apply (simp only: Let_def)
  apply (simp only: if_distrib [where f = "case_prod _"] prod.case cong: if_cong)
  done

lemma leap_from_parts:
  fixes a b c e :: int
  assumes "0 \<le> b" "b \<le> 3" "0 \<le> c" "c \<le> 24" "0 \<le> e" "e \<le> 3"
  shows "is_leap (400 * a + 100 * b + 4 * c + e + 1) \<longleftrightarrow> (e = 3 \<and> (c \<noteq> 24 \<or> b = 3))"
proof -
  let ?y = "400 * a + 100 * b + 4 * c + e + 1"
  have 1: "?y mod 4 = (if e = 3 then 0 else e + 1)"
  proof (cases "e = 3")
    case True
    have "?y mod 4 = 0"
      by (rule int_mod_pos_eq [where q = "100 * a + 25 * b + c + 1"]) (use True in simp_all)
    with True show ?thesis by simp
  next
    case False
    have "?y mod 4 = e + 1"
      by (rule int_mod_pos_eq [where q = "100 * a + 25 * b + c"]) (use False assms in simp_all)
    with False show ?thesis by simp
  qed
  have 2: "?y mod 100 = (if 4 * c + e = 99 then 0 else 4 * c + e + 1)"
  proof (cases "4 * c + e = 99")
    case True
    have "?y mod 100 = 0"
      by (rule int_mod_pos_eq [where q = "4 * a + b + 1"]) (use True in simp_all)
    with True show ?thesis by simp
  next
    case False
    have "?y mod 100 = 4 * c + e + 1"
      by (rule int_mod_pos_eq [where q = "4 * a + b"]) (use False assms in simp_all)
    with False show ?thesis by simp
  qed
  have 3: "?y mod 400 = (if 100 * b + 4 * c + e = 399 then 0 else 100 * b + 4 * c + e + 1)"
  proof (cases "100 * b + 4 * c + e = 399")
    case True
    have "?y mod 400 = 0"
      by (rule int_mod_pos_eq [where q = "a + 1"]) (use True in simp_all)
    with True show ?thesis by simp
  next
    case False
    have "?y mod 400 = 100 * b + 4 * c + e + 1"
      by (rule int_mod_pos_eq [where q = "a"]) (use False assms in simp_all)
    with False show ?thesis by simp
  qed
  show ?thesis unfolding is_leap_def 1 2 3 using assms by (auto split: if_splits)
qed

lemma days_before_year_parts:
  fixes a b c e :: int
  assumes "0 \<le> b" "b \<le> 3" "0 \<le> c" "c \<le> 24" "0 \<le> e" "e \<le> 3"
  shows "365 * (400 * a + 100 * b + 4 * c + e) + (400 * a + 100 * b + 4 * c + e) div 4
           - (400 * a + 100 * b + 4 * c + e) div 100 + (400 * a + 100 * b + 4 * c + e) div 400
         = 146097 * a + 36524 * b + 1461 * c + 365 * e"
proof -
  have 1: "(400 * a + 100 * b + 4 * c + e) div 4 = 100 * a + 25 * b + c"
    by (rule int_div_pos_eq [where r = e]) (use assms in simp_all)
  have 2: "(400 * a + 100 * b + 4 * c + e) div 100 = 4 * a + b"
    by (rule int_div_pos_eq [where r = "4 * c + e"]) (use assms in simp_all)
  have 3: "(400 * a + 100 * b + 4 * c + e) div 400 = a"
    by (rule int_div_pos_eq [where r = "100 * b + 4 * c + e"]) (use assms in simp_all)
  show ?thesis unfolding 1 2 3 by simp
qed

text \<open>
  \<open>ord2ymd\<close> is right: from the number of a day it computes a date of the calendar, and
  the date of that number.
\<close>

lemma ord2ymd_ok:
  assumes n: "1 \<le> n" and r: "ord2ymd n = (y, m, d)"
  shows "valid_date y m d \<and> day_number y m d = n"
proof -
  define n0 where "n0 = n - 1"
  define a where "a = n0 div 146097"
  define r1 where "r1 = n0 mod 146097"
  define b where "b = r1 div 36524"
  define r2 where "r2 = r1 mod 36524"
  define c where "c = r2 div 1461"
  define r3 where "r3 = r2 mod 1461"
  define e where "e = r3 div 365"
  define r4 where "r4 = r3 mod 365"
  define L where "L = (e = 3 \<and> (c \<noteq> 24 \<or> b = 3))"
  have n0: "0 \<le> n0" using n by (simp add: n0_def)
  have d1: "n0 = 146097 * a + r1" "0 \<le> r1" "r1 < 146097" by (simp_all add: a_def r1_def)
  have d2: "r1 = 36524 * b + r2" "0 \<le> r2" "r2 < 36524" by (simp_all add: b_def r2_def)
  have d3: "r2 = 1461 * c + r3" "0 \<le> r3" "r3 < 1461" by (simp_all add: c_def r3_def)
  have d4: "r3 = 365 * e + r4" "0 \<le> r4" "r4 < 365" by (simp_all add: e_def r4_def)
  have a0: "0 \<le> a" using n0 by (simp add: a_def pos_imp_zdiv_nonneg_iff)
  have b0: "0 \<le> b" "b \<le> 4" using d1 d2 by linarith+
  have c0: "0 \<le> c" "c \<le> 24" using d2 d3 by linarith+
  have e0: "0 \<le> e" "e \<le> 4" using d3 d4 by linarith+
  have eq: "(if e = 4 \<or> b = 4 then (a * 400 + 1 + b * 100 + c * 4 + e - 1, 12, 31)
            else (case month_day L r4 of (m', d') \<Rightarrow> (a * 400 + 1 + b * 100 + c * 4 + e, m', d')))
           = (y, m, d)"
    using r
    by (simp only: ord2ymd_alt Let_def n0_def a_def r1_def b_def r2_def c_def r3_def e_def
        r4_def L_def)
  have cm: "sum_list (map (month_length y) [1..11]) = (if is_leap y then 1 else 0) + 334"
    using cum_months [of 12 y] by simp
  consider (b4) "b = 4" | (e4) "b \<le> 3" "e = 4" | (normal) "b \<le> 3" "e \<le> 3"
    using b0 e0 by linarith
  then show ?thesis
  proof cases
    case b4
    with d1 d2 have r2z: "r2 = 0" by linarith
    then have cz: "c = 0" "r3 = 0" by (simp_all add: c_def r3_def)
    then have ez: "e = 0" "r4 = 0" by (simp_all add: e_def r4_def)
    from eq b4 cz ez have ymd: "y = 400 * a + 100 * 3 + 4 * 24 + 3 + 1" "m = 12" "d = 31"
      by simp_all
    have leap: "is_leap y" unfolding ymd(1) by (subst leap_from_parts) simp_all
    have dby: "365 * (y - 1) + (y - 1) div 4 - (y - 1) div 100 + (y - 1) div 400
                 = 146097 * a + 36524 * 3 + 1461 * 24 + 365 * 3"
      using days_before_year_parts [of 3 24 3 a] by (simp add: ymd(1))
    have "day_number y m d = n"
      unfolding day_number_def dby using leap d1 d2 b4 r2z a0
      by (simp add: ymd(2,3) cm n0_def)
    moreover have "valid_date y m d"
      using a0 by (simp add: valid_date_def ymd month_length_def)
    ultimately show ?thesis by simp
  next
    case e4
    with d3 d4 have r4z: "r4 = 0" by linarith
    from e4 d2 d3 d4 c0 have c23: "c \<le> 23" by linarith
    from eq e4 have ymd: "y = 400 * a + 100 * b + 4 * c + 3 + 1" "m = 12" "d = 31" by simp_all
    have leap: "is_leap y" unfolding ymd(1)
      using e4 b0 c0 c23 by (subst leap_from_parts) simp_all
    have dby: "365 * (y - 1) + (y - 1) div 4 - (y - 1) div 100 + (y - 1) div 400
                 = 146097 * a + 36524 * b + 1461 * c + 365 * 3"
    proof -
      have "y - 1 = 400 * a + 100 * b + 4 * c + 3" using ymd(1) by simp
      then show ?thesis
        using days_before_year_parts [of b c 3 a] e4 b0 c0 by (simp only:)
    qed
    have "day_number y m d = n"
      unfolding day_number_def dby using leap d1 d2 d3 d4 e4 r4z
      by (simp add: ymd(2,3) cm n0_def)
    moreover have "valid_date y m d"
      using a0 b0 c0 by (simp add: valid_date_def ymd month_length_def)
    ultimately show ?thesis by simp
  next
    case normal
    from eq normal obtain y1: "y = 400 * a + 100 * b + 4 * c + e + 1"
      and md: "month_day L r4 = (m, d)"
      by (cases "month_day L r4") auto
    have leap: "is_leap y = L" unfolding y1 L_def
      using normal b0 c0 e0 by (intro leap_from_parts) simp_all
    from d4 have r4b: "0 \<le> r4" "r4 \<le> 364" by simp_all
    from month_day_ok [OF r4b, of y m d] md leap
    have mdok: "1 \<le> m" "m \<le> 12" "1 \<le> d" "d \<le> month_length y m"
      "sum_list (map (month_length y) [1..m - 1]) + d = r4 + 1"
      by simp_all
    have dby: "365 * (y - 1) + (y - 1) div 4 - (y - 1) div 100 + (y - 1) div 400
                 = 146097 * a + 36524 * b + 1461 * c + 365 * e"
    proof -
      have "y - 1 = 400 * a + 100 * b + 4 * c + e" using y1 by simp
      then show ?thesis
        using days_before_year_parts [of b c e a] normal b0 c0 e0 by (simp only:)
    qed
    have "day_number y m d = n"
      unfolding day_number_def dby using mdok(5) d1 d2 d3 d4 by (simp add: n0_def)
    moreover have "valid_date y m d"
      using a0 b0 c0 e0 mdok by (simp add: valid_date_def y1)
    ultimately show ?thesis by simp
  qed
qed

subsection \<open>The text of a date\<close>

lemma digit_char:
  "k < 10 \<Longrightarrow> is_digit (''0123456789'' ! k) \<and> (of_char (''0123456789'' ! k) :: nat) = 48 + k"
proof -
  assume "k < 10"
  then have "k = 0 \<or> k = 1 \<or> k = 2 \<or> k = 3 \<or> k = 4 \<or> k = 5 \<or> k = 6 \<or> k = 7 \<or> k = 8
      \<or> k = 9" by arith
  then show ?thesis by (elim disjE) (simp_all add: is_digit_def)
qed

lemma dec_nat_small: "n < 10 \<Longrightarrow> dec_nat n = [''0123456789'' ! n]"
  by (subst dec_nat.simps) simp

lemma dec_nat_large:
  "\<not> n < 10 \<Longrightarrow> dec_nat n = dec_nat (n div 10) @ [''0123456789'' ! (n mod 10)]"
  by (subst dec_nat.simps) simp

lemma digits_value_snoc:
  "digits_value (s @ [c]) = 10 * digits_value s + ((of_char c :: nat) - 48)"
  by (simp add: digits_value_def)

lemma dec_nat_digits: "list_all is_digit (dec_nat n)"
proof (induction n rule: dec_nat.induct)
  case (1 n)
  show ?case
  proof (cases "n < 10")
    case True
    then show ?thesis using digit_char [of n] by (simp add: dec_nat_small del: dec_nat.simps)
  next
    case False
    with 1 have "list_all is_digit (dec_nat (n div 10))" by simp
    then show ?thesis
      using False digit_char [of "n mod 10"] by (simp add: dec_nat_large del: dec_nat.simps)
  qed
qed

lemma dec_nat_value: "digits_value (dec_nat n) = n"
proof (induction n rule: dec_nat.induct)
  case (1 n)
  show ?case
  proof (cases "n < 10")
    case True
    then show ?thesis
      using digit_char [of n] by (simp add: dec_nat_small digits_value_def del: dec_nat.simps)
  next
    case False
    with 1 have "digits_value (dec_nat (n div 10)) = n div 10" by simp
    then show ?thesis
      using False digit_char [of "n mod 10"]
      by (simp add: dec_nat_large digits_value_snoc del: dec_nat.simps)
  qed
qed

lemma dec_nat_not_Nil: "dec_nat n \<noteq> []"
  by (cases "n < 10") (simp_all add: dec_nat_small dec_nat_large del: dec_nat.simps)

lemma dec_nat_length:
  "n < 100 \<Longrightarrow> length (dec_nat n) = (if n < 10 then 1 else 2)"
proof -
  assume n: "n < 100"
  show ?thesis
  proof (cases "n < 10")
    case True
    then show ?thesis by (simp add: dec_nat_small del: dec_nat.simps)
  next
    case False
    from n have "n div 10 < 10" by simp
    then have "length (dec_nat (n div 10)) = 1" by (simp add: dec_nat_small del: dec_nat.simps)
    with False show ?thesis by (simp add: dec_nat_large del: dec_nat.simps)
  qed
qed

lemma day_text:
  assumes "1 \<le> d" "d \<le> 31"
  defines "dd \<equiv> (if d < 10 then ''0'' else []) @ dec_nat (nat d)"
  shows "length dd = 2 \<and> list_all is_digit dd \<and> digits_value dd = nat d"
proof -
  from assms(1,2) have n: "nat d < 100" by simp
  have v: "digits_value (CHR ''0'' # s) = digits_value s" for s
    by (simp add: digits_value_def)
  have z: "is_digit CHR ''0''" by (simp add: is_digit_def)
  show ?thesis
  proof (cases "d < 10")
    case True
    with assms(1) have "nat d < 10" by simp
    with dec_nat_length [OF n] have "length (dec_nat (nat d)) = 1" by simp
    with True show ?thesis
      using dec_nat_digits [of "nat d"] dec_nat_value [of "nat d"]
      by (simp add: dd_def v z del: dec_nat.simps)
  next
    case False
    then have "\<not> nat d < 10" by simp
    with dec_nat_length [OF n] have "length (dec_nat (nat d)) = 2" by simp
    with False show ?thesis
      using dec_nat_digits [of "nat d"] dec_nat_value [of "nat d"]
      by (simp add: dd_def del: dec_nat.simps)
  qed
qed

lemma month_text:
  assumes "1 \<le> m" "m \<le> 12"
  shows "length (month_abbr ! nat m) = 3 \<and> month_abbr ! nat m = english_months ! nat (m - 1)"
proof -
  from assms have "m = 1 \<or> m = 2 \<or> m = 3 \<or> m = 4 \<or> m = 5 \<or> m = 6 \<or> m = 7 \<or> m = 8
      \<or> m = 9 \<or> m = 10 \<or> m = 11 \<or> m = 12" by arith
  then show ?thesis
    by (elim disjE) (simp_all add: month_abbr_def english_months_def)
qed

lemma month_length_le: "month_length y m \<le> 31"
  by (simp add: month_length_def)

text \<open>What \<open>strftime\<close> writes for a date of the calendar is the text of that date.\<close>

lemma strftime_date_text:
  assumes v: "valid_date y m d" and r: "ord2ymd n = (y, m, d)"
  shows "date_text y m d (strftime_d_b_Y n)"
proof -
  define dd where "dd = (if d < 10 then ''0'' else []) @ dec_nat (nat d)"
  define mon where "mon = month_abbr ! nat m"
  define yyyy where "yyyy = dec_nat (nat y)"
  from v month_length_le [of y m] have d: "1 \<le> d" "d \<le> 31" and m: "1 \<le> m" "m \<le> 12"
    by (simp_all add: valid_date_def)
  from day_text [OF d] have dd: "length dd = 2" "list_all is_digit dd" "digits_value dd = nat d"
    by (simp_all add: dd_def)
  from month_text [OF m] have mon: "length mon = 3" "mon = english_months ! nat (m - 1)"
    unfolding mon_def by blast+
  have yyyy: "yyyy \<noteq> []" "list_all is_digit yyyy" "digits_value yyyy = nat y"
    by (simp_all add: yyyy_def dec_nat_not_Nil dec_nat_digits dec_nat_value del: dec_nat.simps)
  have s: "strftime_d_b_Y n = dd @ ''-'' @ mon @ ''-'' @ yyyy"
    using r by (simp add: strftime_d_b_Y_def dd_def mon_def yyyy_def del: dec_nat.simps)
  from dd(1) have t2: "take 2 (dd @ ''-'' @ mon @ ''-'' @ yyyy) = dd" by simp
  from dd(1) mon(1) have t3: "take 3 (drop 3 (dd @ ''-'' @ mon @ ''-'' @ yyyy)) = mon" by simp
  from dd(1) mon(1) have t7: "drop 7 (dd @ ''-'' @ mon @ ''-'' @ yyyy) = yyyy" by simp
  show ?thesis
    unfolding date_text_def s Let_def t2 t3 t7 using dd mon(2) yyyy by simp
qed

text \<open>
  The date of the \<open>SINCE\<close> clause: when it is in range, it is the text of the date of the
  calendar that lies \<open>days\<close> days before today.
\<close>

lemma since_date_text:
  assumes "\<bar>days\<bar> \<le> 999999999" "1 \<le> today - days" "today - days \<le> 3652059"
  shows "\<exists>y m d s. valid_date y m d \<and> day_number y m d = today - days \<and> date_text y m d s
           \<and> since_date today days = Inr s"
proof -
  obtain y m d where r: "ord2ymd (today - days) = (y, m, d)"
    by (cases "ord2ymd (today - days)") auto
  from ord2ymd_ok [OF assms(2) r]
  have v: "valid_date y m d" and n: "day_number y m d = today - days" by simp_all
  from strftime_date_text [OF v r] have t: "date_text y m d (strftime_d_b_Y (today - days))" .
  from assms have "since_date today days = Inr (strftime_d_b_Y (today - days))"
    by (simp add: since_date_def)
  with v n t show ?thesis by blast
qed

lemma build_search_clauses:
  "build_search today from_address subject_filter unread_only days =
     (case (case days of None \<Rightarrow> Inr [] | Some d \<Rightarrow>
              if d = 0 then Inr []
              else (case since_date today d of Inl e \<Rightarrow> Inl e
                    | Inr date \<Rightarrow> Inr [''SINCE '' @ date])) of
        Inl e \<Rightarrow> Inl e
      | Inr since \<Rightarrow>
          Inr (search_string (clauses from_address subject_filter unread_only since)))"
  by (simp add: build_search_def clauses_def split: option.splits sum.splits)

text \<open>
  Claim C9, as the spec states it, fails: a filter set that holds an age of 0 days, or
  an empty sender and an empty subject, is not empty, and the search string has no
  clause for these filters: it is the match-all token.
\<close>

theorem search_query_counterexample:
  "given_filters None None False (Some 0) = 1
   \<and> build_search 739924 None None False (Some 0) = Inr ''ALL''
   \<and> given_filters (Some []) (Some []) False None = 2
   \<and> build_search 739924 (Some []) (Some []) False None = Inr ''ALL''"
  by (simp add: given_filters_def build_search_def search_string_def)

text \<open>
  Claim C9, amended: the search string joins with single spaces one clause per filter
  whose value is not empty (a sender and a subject that are not the empty string, a
  true unread flag, an age that is not 0 days), in the order sender, subject, unread,
  age, and is the match-all token \<open>ALL\<close> when there is no such filter; the clause of the
  age is \<open>SINCE\<close> and, as day, English month abbreviation and year, the date of the
  calendar that lies the given number of days before today, as long as that date is
  in the years 1 to 9999. With the unread flag and an age of 7 days the search string is
  \<open>UNSEEN\<close>, a space, and the \<open>SINCE\<close> clause of the date 7 days before today.
\<close>

theorem search_query:
  "build_search today None None False None = Inr ''ALL''
   \<and> (8 \<le> today \<and> today \<le> 3652066 \<longrightarrow>
        (\<exists>y m d s. valid_date y m d \<and> day_number y m d = today - 7 \<and> date_text y m d s
           \<and> build_search today None None True (Some 7) = Inr (''UNSEEN SINCE '' @ s)))
   \<and> (days = None \<or> days = Some 0 \<longrightarrow>
        build_search today from_address subject_filter unread_only days
          = Inr (if clauses from_address subject_filter unread_only [] = [] then ''ALL''
                 else join '' '' (clauses from_address subject_filter unread_only [])))
   \<and> (days = Some n \<and> n \<noteq> 0 \<and> \<bar>n\<bar> \<le> 999999999 \<and> 1 \<le> today - n \<and> today - n \<le> 3652059
        \<longrightarrow>
        (\<exists>y m d s. valid_date y m d \<and> day_number y m d = today - n \<and> date_text y m d s
           \<and> build_search today from_address subject_filter unread_only days
               = Inr (join '' ''
                   (clauses from_address subject_filter unread_only [''SINCE '' @ s]))))"
proof -
  have a: "build_search today None None False None = Inr ''ALL''"
    by (simp add: build_search_def search_string_def)
  have c: "build_search today from_address subject_filter unread_only days
          = Inr (if clauses from_address subject_filter unread_only [] = [] then ''ALL''
                 else join '' '' (clauses from_address subject_filter unread_only []))"
    if "days = None \<or> days = Some 0"
    using that by (auto simp: build_search_clauses search_string_def)
  have d: "\<exists>y m d s. valid_date y m d \<and> day_number y m d = today - k \<and> date_text y m d s
           \<and> build_search today f u r (Some k)
               = Inr (join '' '' (clauses f u r [''SINCE '' @ s]))"
    if "k \<noteq> 0" "\<bar>k\<bar> \<le> 999999999" "1 \<le> today - k" "today - k \<le> 3652059" for k f u r
  proof -
    from since_date_text [OF that(2,3,4)] obtain y m d s
      where "valid_date y m d" "day_number y m d = today - k" "date_text y m d s"
        and s: "since_date today k = Inr s"
      by blast
    moreover have "clauses f u r [''SINCE '' @ s] \<noteq> []" by (simp add: clauses_def)
    then have "build_search today f u r (Some k)
        = Inr (join '' '' (clauses f u r [''SINCE '' @ s]))"
      using that(1) s by (simp add: build_search_clauses search_string_def)
    ultimately show ?thesis by blast
  qed
  have b: "\<exists>y m d s. valid_date y m d \<and> day_number y m d = today - 7 \<and> date_text y m d s
           \<and> build_search today None None True (Some 7) = Inr (''UNSEEN SINCE '' @ s)"
    if "8 \<le> today" "today \<le> 3652066"
  proof -
    from that d [of 7 None None True] obtain y m d s
      where "valid_date y m d" "day_number y m d = today - 7" "date_text y m d s"
        and "build_search today None None True (Some 7)
               = Inr (join '' '' (clauses None None True [''SINCE '' @ s]))"
      by auto
    moreover have "join '' '' (clauses None None True [''SINCE '' @ s]) = ''UNSEEN SINCE '' @ s"
      by (simp add: clauses_def)
    ultimately show ?thesis by auto
  qed
  from a b c d show ?thesis by blast
qed

theorem search_query_witness:
  "(\<exists>y m d s. valid_date y m d \<and> day_number y m d = 738950 - 7 \<and> date_text y m d s
       \<and> build_search 738950 None None True (Some 7) = Inr (''UNSEEN SINCE '' @ s))
   \<and> valid_date 2024 2 27 \<and> day_number 2024 2 27 = 738950 - 7
   \<and> date_text 2024 2 27 ''27-Feb-2024''
   \<and> build_search 738950 None None True (Some 7) = Inr ''UNSEEN SINCE 27-Feb-2024''
   \<and> valid_date 2026 10 28 \<and> day_number 2026 10 28 = 739924 - 7
   \<and> date_text 2026 10 28 ''28-Oct-2026''
   \<and> build_search 739924 (Some ''a@b.test'') (Some ''hi'') True (Some 7)
       = Inr (''FROM '' @ [dquote] @ ''a@b.test'' @ [dquote] @ '' SUBJECT '' @ [dquote]
              @ ''hi'' @ [dquote] @ '' UNSEEN SINCE 28-Oct-2026'')
   \<and> build_search 739924 (Some ''a@b.test'') None False (Some 0)
       = Inr (''FROM '' @ [dquote] @ ''a@b.test'' @ [dquote])"
proof -
  have e: "\<exists>y m d s. valid_date y m d \<and> day_number y m d = 738950 - 7 \<and> date_text y m d s
       \<and> build_search 738950 None None True (Some 7) = Inr (''UNSEEN SINCE '' @ s)"
    using search_query [of 738950 "Some 7" None None True 7] by simp
  have z: "build_search 739924 (Some ''a@b.test'') None False (Some 0)
       = Inr (''FROM '' @ [dquote] @ ''a@b.test'' @ [dquote])"
    using search_query [of 739924 "Some 0" "Some ''a@b.test''" None False 0]
    by (simp add: clauses_def)
  have c: "valid_date 2024 2 27" "day_number 2024 2 27 = 738950 - 7"
    "valid_date 2026 10 28" "day_number 2026 10 28 = 739924 - 7"
    by (simp_all add: valid_date_def day_number_def month_length_def is_leap_def upto.simps)
  have t: "date_text 2024 2 27 ''27-Feb-2024''" "date_text 2026 10 28 ''28-Oct-2026''"
    by (simp_all add: date_text_def is_digit_def digits_value_def english_months_def)
  have s: "strftime_d_b_Y 738943 = ''27-Feb-2024''" "strftime_d_b_Y 739917 = ''28-Oct-2026''"
    by (simp_all add: strftime_d_b_Y_def ord2ymd_def Let_def days_before_month_def
        days_in_month_def month_abbr_def)
  have b: "build_search 738950 None None True (Some 7) = Inr ''UNSEEN SINCE 27-Feb-2024''"
    "build_search 739924 (Some ''a@b.test'') (Some ''hi'') True (Some 7)
       = Inr (''FROM '' @ [dquote] @ ''a@b.test'' @ [dquote] @ '' SUBJECT '' @ [dquote]
              @ ''hi'' @ [dquote] @ '' UNSEEN SINCE 28-Oct-2026'')"
    by (simp_all add: build_search_def search_string_def since_date_def s)
  from e z c t b show ?thesis by blast
qed

section \<open>Properties of the unsubscribe links\<close>

subsection \<open>The order of first occurrence\<close>

lemma first_seen_filter: "first_seen (filter Q xs) = filter Q (first_seen xs)"
proof (induction xs rule: first_seen.induct)
  case 1
  then show ?case by simp
next
  case (2 x xs)
  have c: "filter (\<lambda>y. y \<noteq> x) (filter Q xs) = filter Q (filter (\<lambda>y. y \<noteq> x) xs)"
    by (simp add: conj_commute)
  show ?case
  proof (cases "Q x")
    case True
    with 2 c show ?thesis by simp
  next
    case False
    then have "filter Q xs = filter Q (filter (\<lambda>y. y \<noteq> x) xs)"
      by (auto intro: filter_cong)
    with 2 False show ?thesis by simp
  qed
qed

lemma set_first_seen: "set (first_seen xs) = set xs"
  by (induction xs rule: first_seen.induct) auto

lemma distinct_first_seen: "distinct (first_seen xs)"
  by (induction xs rule: first_seen.induct) (auto simp: set_first_seen)

lemma first_seen_distinct: "distinct xs \<Longrightarrow> first_seen xs = xs"
proof (induction xs)
  case Nil
  then show ?case by simp
next
  case (Cons x xs)
  then have "filter (\<lambda>y. y \<noteq> x) xs = xs" by (auto intro: filter_True)
  with Cons show ?case by simp
qed

lemma first_seen_append:
  "first_seen (xs @ ys) = first_seen xs @ first_seen (filter (\<lambda>y. y \<notin> set xs) ys)"
proof (induction xs arbitrary: ys rule: first_seen.induct)
  case 1
  then show ?case by simp
next
  case (2 x xs)
  have "filter (\<lambda>y. y \<notin> set (filter (\<lambda>y. y \<noteq> x) xs)) (filter (\<lambda>y. y \<noteq> x) ys)
        = filter (\<lambda>y. y \<notin> set (x # xs)) ys"
    by (auto intro: filter_cong)
  with 2 [of "filter (\<lambda>y. y \<noteq> x) ys"] show ?case by simp
qed

lemma unique_loop_first_seen:
  "unique_loop seen acc ls = acc @ first_seen (filter (\<lambda>l. l \<notin> seen) ls)"
proof (induction ls arbitrary: seen acc)
  case Nil
  then show ?case by simp
next
  case (Cons l ls)
  have "filter (\<lambda>y. y \<noteq> l) (filter (\<lambda>l. l \<notin> seen) ls) = filter (\<lambda>y. y \<notin> insert l seen) ls"
    by (auto intro: filter_cong)
  with Cons show ?case by simp
qed

lemma foldl_add_link:
  "foldl add_link links cs
     = links @ first_seen (filter (\<lambda>u. startswith u ''http'' \<and> u \<notin> set links) cs)"
proof (induction cs arbitrary: links)
  case Nil
  then show ?case by simp
next
  case (Cons u cs)
  show ?case
  proof (cases "startswith u ''http'' \<and> u \<notin> set links")
    case True
    have "filter (\<lambda>y. y \<noteq> u) (filter (\<lambda>u. startswith u ''http'' \<and> u \<notin> set links) cs)
          = filter (\<lambda>v. startswith v ''http'' \<and> v \<notin> set (links @ [u])) cs"
      by (auto intro: filter_cong)
    with True Cons [of "links @ [u]"] show ?thesis by (simp add: add_link_def)
  next
    case False
    with Cons [of links] show ?thesis by (auto simp: add_link_def)
  qed
qed

lemma first_seen_foldl_add_link:
  "first_seen (foldl add_link links cs)
     = first_seen (links @ filter (\<lambda>u. startswith u ''http'') cs)"
proof -
  have "filter (\<lambda>y. y \<notin> set links) (filter (\<lambda>u. startswith u ''http'' \<and> u \<notin> set links) cs)
        = filter (\<lambda>u. startswith u ''http'' \<and> u \<notin> set links) cs"
    by (auto intro: filter_cong)
  moreover have "filter (\<lambda>y. y \<notin> set links) (filter (\<lambda>u. startswith u ''http'') cs)
        = filter (\<lambda>u. startswith u ''http'' \<and> u \<notin> set links) cs"
    by (auto intro: filter_cong)
  ultimately show ?thesis
    by (simp add: foldl_add_link first_seen_append first_seen_filter
        first_seen_distinct [OF distinct_first_seen])
qed

lemma foldl_cond:
  "foldl (\<lambda>links m. if P m then add_link links (g m) else links) links ms
     = foldl add_link links (map g (filter P ms))"
  by (induction ms arbitrary: links) simp_all

lemma foldl_clean_url:
  "foldl (\<lambda>links m. add_link links (clean_url m)) links ms
     = foldl add_link links (map clean_url ms)"
  by (induction ms arbitrary: links) simp_all

lemma foldl_nested:
  "foldl (\<lambda>links p. foldl add_link links (h p)) links ps
     = foldl add_link links (concat (map h ps))"
  by (induction ps arbitrary: links) simp_all

lemma anchor_text_rule_candidates:
  "anchor_text_rule links body = foldl add_link links (anchor_candidates body)"
  by (simp add: anchor_text_rule_def anchor_candidates_def foldl_cond)

lemma proximity_rule_candidates:
  "proximity_rule links body
     = foldl add_link links
         (findall1 True unsub_before_link_re body @ findall1 True unsub_in_link_re body)"
  by (simp add: proximity_rule_def)

lemma pattern_rule_candidates:
  "pattern_rule links body = foldl add_link links (url_candidates body)"
  unfolding pattern_rule_def url_candidates_def foldl_clean_url
  by (rule foldl_nested)

lemma collected_links_candidates:
  assumes "header_links msg = Inr hl"
    and "get_email_body msg True = Inr b1" and "get_email_body msg False = Inr b2"
  shows "collected_links msg = Inr (foldl add_link hl (body_candidates b1 b2))"
  using assms
  by (simp add: collected_links_def body_pass_def anchor_text_rule_candidates
      proximity_rule_candidates pattern_rule_candidates body_candidates_def html_candidates_def)

lemma get_unsubscribe_links_candidates:
  assumes "header_links msg = Inr hl"
    and "get_email_body msg True = Inr b1" and "get_email_body msg False = Inr b2"
  shows "get_unsubscribe_links msg
     = Inr (first_seen (hl @ filter (\<lambda>u. startswith u ''http'') (body_candidates b1 b2)))"
  by (simp add: get_unsubscribe_links_def collected_links_candidates [OF assms]
      unique_loop_first_seen first_seen_foldl_add_link)

lemma get_unsubscribe_links_bodies:
  assumes "get_unsubscribe_links msg = Inr links"
  shows "\<exists>hl b1 b2. header_links msg = Inr hl
           \<and> get_email_body msg True = Inr b1 \<and> get_email_body msg False = Inr b2"
  using assms
  by (auto simp: get_unsubscribe_links_def collected_links_def body_pass_def
      split: sum.splits)

lemma header_links_str:
  assumes "str_header msg ''List-Unsubscribe''"
  shows "\<exists>hl. header_links msg = Inr hl"
  using assms
  by (auto simp: header_links_def str_header_def split: option.splits hvalue.splits)

lemma header_links_Header:
  assumes "\<not> str_header msg ''List-Unsubscribe''"
  shows "get_unsubscribe_links msg = Inl TypeError"
  using assms
  by (auto simp: get_unsubscribe_links_def collected_links_def header_links_def str_header_def
      split: option.splits hvalue.splits)

lemma get_unsubscribe_links_parsed:
  assumes "parsed msg" and "str_header msg ''List-Unsubscribe''"
  shows "\<exists>links. get_unsubscribe_links msg = Inr links"
proof -
  from captured_parsed [OF assms(1)] obtain p h where "captured_bodies msg = Inr (p, h)"
    by blast
  then have "\<exists>b1 b2. get_email_body msg True = Inr b1 \<and> get_email_body msg False = Inr b2"
    by (simp add: get_email_body_def)
  then obtain b1 b2 where b: "get_email_body msg True = Inr b1" "get_email_body msg False = Inr b2"
    by blast
  from header_links_str [OF assms(2)] obtain hl where "header_links msg = Inr hl" by blast
  from get_unsubscribe_links_candidates [OF this b] show ?thesis by blast
qed

subsection \<open>The header patterns and the bracketed tokens\<close>




























subsection \<open>The links of a message\<close>

lemmas re_eval = scan.simps lits_def dquote_def squote_def not_gt_def not_lt_def quote_char_def
  not_quote_def url_char_def url_header_re_def mailto_header_re_def http_prefix_def
  unsubscribe_patterns_def anchor_href_def link_pattern_def link_text_re_def
  unsub_before_link_re_def unsub_in_link_re_def group0_def group1_def group2_def
  findall0_def findall1_def lower_char_def is_space_def char_of_eq_iff

lemmas links_eval = header_links_def get_def lower_def anchor_candidates_def
  html_candidates_def url_candidates_def body_candidates_def clean_url_def strip_set_def
  strip_chars_def lstrip_chars_def rstrip_chars_def


lemma sample_msg_bodies:
  "get_email_body sample_msg True = Inr sample_html"
  "get_email_body sample_msg False = Inr sample_html"
  by (simp_all add: sample_msg_def sample_html_def body_eval)

lemma sample_header_links:
  "header_links sample_msg = Inr [''http://a.io/unsub'', ''mailto:u@a.io'']"
  by (simp add: sample_msg_def re_eval links_eval)

lemma sample_html_candidates:
  "html_candidates sample_html = [''http://a.io/unsub'', ''http://a.io/unsub'']"
  by (simp add: sample_html_def re_eval links_eval)

lemma sample_url_candidates: "url_candidates sample_html = [''http://a.io/unsub'']"
  by (simp add: sample_html_def re_eval links_eval)

lemma sample_html_nonempty: "sample_html \<noteq> []"
  by (simp add: sample_html_def)

lemma sample_links:
  "get_unsubscribe_links sample_msg = Inr [''http://a.io/unsub'', ''mailto:u@a.io'']"
  by (simp add: get_unsubscribe_links_candidates [OF sample_header_links sample_msg_bodies]
      body_candidates_def sample_html_nonempty sample_html_candidates sample_url_candidates)

text \<open>
  Claim C3: the returned links are distinct, and they are the candidates in the order
  in which the rules see them first (the header links, then, of the candidates that
  begin with \<open>http\<close>, those of the anchor-text rule, of the proximity rules and of the
  URL patterns on the body of the first pass, then those of the URL patterns on the body
  of the second pass), each kept at its first occurrence. On a parsed message whose
  \<open>List-Unsubscribe\<close> header, if it is there, is a \<open>str\<close>, the function returns; when
  that header is a \<open>Header\<close> object it returns no links and raises \<open>TypeError\<close>.
\<close>

theorem unsubscribe_links_first_seen:
  "(get_unsubscribe_links msg = Inr links \<longrightarrow>
      distinct links
      \<and> (\<exists>hl b1 b2. header_links msg = Inr hl
            \<and> get_email_body msg True = Inr b1 \<and> get_email_body msg False = Inr b2
            \<and> links = first_seen (hl
                 @ filter (\<lambda>u. startswith u ''http'') (body_candidates b1 b2))))
   \<and> (parsed msg \<and> str_header msg ''List-Unsubscribe''
        \<longrightarrow> (\<exists>links. get_unsubscribe_links msg = Inr links))
   \<and> (\<not> str_header msg ''List-Unsubscribe'' \<longrightarrow> get_unsubscribe_links msg = Inl TypeError)"
proof -
  have "distinct links
      \<and> (\<exists>hl b1 b2. header_links msg = Inr hl
            \<and> get_email_body msg True = Inr b1 \<and> get_email_body msg False = Inr b2
            \<and> links = first_seen (hl
                 @ filter (\<lambda>u. startswith u ''http'') (body_candidates b1 b2)))"
    if l: "get_unsubscribe_links msg = Inr links"
  proof -
    from get_unsubscribe_links_bodies [OF l] obtain hl b1 b2
      where b: "header_links msg = Inr hl"
        "get_email_body msg True = Inr b1" "get_email_body msg False = Inr b2"
      by blast
    from get_unsubscribe_links_candidates [OF b] l
    have e: "links = first_seen (hl
                 @ filter (\<lambda>u. startswith u ''http'') (body_candidates b1 b2))"
      by simp
    then have "distinct links" by (simp add: distinct_first_seen)
    with b e show ?thesis by blast
  qed
  with get_unsubscribe_links_parsed header_links_Header show ?thesis by blast
qed

theorem unsubscribe_links_first_seen_witness:
  "parsed sample_msg \<and> str_header sample_msg ''List-Unsubscribe''
   \<and> get_unsubscribe_links sample_msg = Inr [''http://a.io/unsub'', ''mailto:u@a.io'']
   \<and> distinct [''http://a.io/unsub'', ''mailto:u@a.io'']
   \<and> header_links sample_msg = Inr [''http://a.io/unsub'', ''mailto:u@a.io'']
   \<and> filter (\<lambda>u. startswith u ''http'') (body_candidates sample_html sample_html)
       = [''http://a.io/unsub'', ''http://a.io/unsub'', ''http://a.io/unsub'',
          ''http://a.io/unsub'']
   \<and> \<not> str_header (Leaf [(''List-Unsubscribe'', Header ''<http://a.io/u>'')]
            ''text/plain'' None ''hello'') ''List-Unsubscribe''
   \<and> get_unsubscribe_links (Leaf [(''List-Unsubscribe'', Header ''<http://a.io/u>'')]
            ''text/plain'' None ''hello'') = Inl TypeError"
proof -
  let ?h = "Leaf [(''List-Unsubscribe'', Header ''<http://a.io/u>'')] ''text/plain'' None
      ''hello''"
  have p: "parsed sample_msg" "str_header sample_msg ''List-Unsubscribe''"
    by (simp_all add: sample_msg_def str_header_def get_def lower_def lower_char_def)
  have c: "filter (\<lambda>u. startswith u ''http'') (body_candidates sample_html sample_html)
       = [''http://a.io/unsub'', ''http://a.io/unsub'', ''http://a.io/unsub'',
          ''http://a.io/unsub'']"
    by (simp add: body_candidates_def sample_html_nonempty sample_html_candidates
        sample_url_candidates)
  have n: "\<not> str_header ?h ''List-Unsubscribe''"
    by (simp add: str_header_def get_def lower_def lower_char_def)
  from unsubscribe_links_first_seen [of ?h] n
  have t: "get_unsubscribe_links ?h = Inl TypeError" by blast
  from unsubscribe_links_first_seen [of sample_msg "[''http://a.io/unsub'', ''mailto:u@a.io'']"]
    sample_links sample_header_links p c n t
  show ?thesis by simp
qed

lemma spam_header:
  "header_links (Leaf [] ''text/plain'' None ''https://x.test/unsubscribe?list=spam'') = Inr []"
  by (simp add: header_links_def get_def)

lemma spam_bodies:
  "get_email_body (Leaf [] ''text/plain'' None ''https://x.test/unsubscribe?list=spam'') True
     = Inr ''https://x.test/unsubscribe?list=spam''"
  "get_email_body (Leaf [] ''text/plain'' None ''https://x.test/unsubscribe?list=spam'') False
     = Inr ''https://x.test/unsubscribe?list=spam''"
  by (simp_all add: body_eval)

lemma spam_matches:
  "map (\<lambda>p. findall0 True p ''https://x.test/unsubscribe?list=spam'') unsubscribe_patterns
     = [[''https://x.test/unsubscribe?list=spam''], [''https://x.test/unsubscribe?list=spam''],
        [], [], [], [], [], [], [], [], []]"
  by (simp add: re_eval)

lemma spam_html_candidates: "html_candidates ''https://x.test/unsubscribe?list=spam'' = []"
  by (simp add: re_eval links_eval)

lemma clean_spam:
  "clean_url ''https://x.test/unsubscribe?list=spam'' = ''https://x.test/unsubscribe?list=s''"
  by (simp add: clean_url_def strip_set_def strip_chars_def lstrip_chars_def rstrip_chars_def
      dquote_def squote_def)

lemma url_candidates_map:
  "url_candidates body
     = concat (map (map clean_url) (map (\<lambda>p. findall0 True p body) unsubscribe_patterns))"
  by (simp add: url_candidates_def comp_def)

text \<open>
  Claim C6 on the body \<open>https://x.test/unsubscribe?list=spam\<close>: the first URL pattern
  matches the whole URL, and the accepted link has lost the letters \<open>pam\<close> at its
  end, since \<open>strip\<close> removes every character of its argument, the letters of
  \<open>&amp;\<close> among them. A URL that ends in a digit and a period loses the period only.
\<close>

theorem strip_removes_letters:
  "get_unsubscribe_links (Leaf [] ''text/plain'' None ''https://x.test/unsubscribe?list=spam'')
     = Inr [''https://x.test/unsubscribe?list=s'']
   \<and> findall0 True (hd unsubscribe_patterns) ''https://x.test/unsubscribe?list=spam''
     = [''https://x.test/unsubscribe?list=spam'']
   \<and> clean_url ''https://news.test/email/preferences?id=9.''
     = ''https://news.test/email/preferences?id=9''"
proof -
  have a: "get_unsubscribe_links
      (Leaf [] ''text/plain'' None ''https://x.test/unsubscribe?list=spam'')
     = Inr [''https://x.test/unsubscribe?list=s'']"
    by (simp add: get_unsubscribe_links_candidates [OF spam_header spam_bodies]
        body_candidates_def spam_html_candidates url_candidates_map spam_matches clean_spam)
  have b: "findall0 True (hd unsubscribe_patterns) ''https://x.test/unsubscribe?list=spam''
     = [''https://x.test/unsubscribe?list=spam'']"
    using spam_matches by (simp add: unsubscribe_patterns_def)
  have c: "clean_url ''https://news.test/email/preferences?id=9.''
     = ''https://news.test/email/preferences?id=9''"
    by (simp add: clean_url_def strip_set_def strip_chars_def lstrip_chars_def rstrip_chars_def
      dquote_def squote_def)
  from a b c show ?thesis by simp
qed






end
